(* ===== verification/Prelude.thy ===== *)
theory Prelude
  imports Main "HOL-Library.Multiset" "HOL-Library.AList" "HOL-Library.Char_ord"
    "HOL-Library.List_Lexorder"
begin

text \<open>
  Shared vocabulary of the development: how the Go values of the controller are
  represented, and the generic facts on lists, association lists and orderings that the
  component theories rest on.

  \<^item> A Go run-time panic is a value of \<open>go_panic\<close>; a computation that may panic returns
    \<open>'a res\<close>, with \<open>Inl\<close> for the panic. An \<open>error\<close> value is its message, and a pair
    \<open>(value, error)\<close> of the source is \<open>'a or_error\<close>.
  \<^item> A slice is \<open>'a slice\<close>: \<open>None\<close> is the nil slice, which the source distinguishes from
    an empty one.
  \<^item> A Go map is an association list with distinct keys, updated with \<open>AList.update\<close>. The
    order in which \<open>range\<close> visits it is not specified by Go; a definition that ranges over
    a map takes that order as a parameter, a function whose result is a permutation of its
    argument (\<open>range_order\<close>).
\<close>

section \<open>Automation\<close>

named_theorems go_simps \<open>rewrite rules for the Go values: slices, maps, panics\<close>
named_theorems equal_simps \<open>characterisations of the Equal methods\<close>

section \<open>Panics, errors, slices and maps\<close>

datatype go_panic =
    NilDereference
  | IndexOutOfRange
  | ReflectIsNil
  | CloseOfClosedChannel
  | CloseOfNilChannel
  | TypeAssertion
  | PanicError string

type_synonym 'a res = "go_panic + 'a"

type_synonym go_error = string

type_synonym 'a or_error = "go_error + 'a"

type_synonym 'a slice = "'a list option"

type_synonym ('k, 'v) go_map = "('k \<times> 'v) list"

definition bind_res :: "'a res \<Rightarrow> ('a \<Rightarrow> 'b res) \<Rightarrow> 'b res" where
  "bind_res r f = (case r of Inl p \<Rightarrow> Inl p | Inr x \<Rightarrow> f x)"

primrec fold_res :: "('a \<Rightarrow> 's \<Rightarrow> 's res) \<Rightarrow> 'a list \<Rightarrow> 's \<Rightarrow> 's res" where
  "fold_res f [] s = Inr s"
| "fold_res f (x # xs) s = bind_res (f x s) (fold_res f xs)"

definition elems :: "'a slice \<Rightarrow> 'a list" where
  "elems s = (case s of None \<Rightarrow> [] | Some xs \<Rightarrow> xs)"

text \<open>\<open>append(s, xs...)\<close>: appending nothing to a nil slice leaves it nil.\<close>

definition go_append :: "'a slice \<Rightarrow> 'a list \<Rightarrow> 'a slice" where
  "go_append s xs = (if s = None \<and> xs = [] then None else Some (elems s @ xs))"

text \<open>\<open>xs[i]\<close> on a slice: an index out of range panics.\<close>

definition go_index :: "'a slice \<Rightarrow> nat \<Rightarrow> 'a res" where
  "go_index s i = (if i < length (elems s) then Inr (elems s ! i) else Inl IndexOutOfRange)"

text \<open>\<open>*p\<close>: a nil pointer panics.\<close>

definition deref :: "'a option \<Rightarrow> 'a res" where
  "deref p = (case p of None \<Rightarrow> Inl NilDereference | Some x \<Rightarrow> Inr x)"

definition range_order :: "('a list \<Rightarrow> 'a list) \<Rightarrow> bool" where
  "range_order ord \<longleftrightarrow> (\<forall>xs. mset (ord xs) = mset xs)"

section \<open>Facts about them\<close>

lemma bind_res_simps [simp, go_simps]:
  "bind_res (Inl p) f = Inl p"
  "bind_res (Inr x) f = f x"
  by (simp_all add: bind_res_def)

lemma bind_res_eq_Inr [simp, go_simps]:
  "bind_res r f = Inr y \<longleftrightarrow> (\<exists>x. r = Inr x \<and> f x = Inr y)"
  by (cases r) simp_all

lemma bind_res_eq_Inl:
  "bind_res r f = Inl p \<longleftrightarrow> r = Inl p \<or> (\<exists>x. r = Inr x \<and> f x = Inl p)"
  by (cases r) auto

lemma elems_simps [simp, go_simps]:
  "elems None = []"
  "elems (Some xs) = xs"
  by (simp_all add: elems_def)

lemma go_append_simps [simp, go_simps]:
  "go_append (Some xs) ys = Some (xs @ ys)"
  "go_append s [] = s"
  "elems (go_append s ys) = elems s @ ys"
  by (auto simp: go_append_def elems_def split: option.splits)

lemma deref_simps [simp, go_simps]:
  "deref None = Inl NilDereference"
  "deref (Some x) = Inr x"
  by (simp_all add: deref_def)

lemma go_index_simps [simp, go_simps]:
  "go_index None i = Inl IndexOutOfRange"
  "go_index (Some []) i = Inl IndexOutOfRange"
  "go_index (Some (x # xs)) 0 = Inr x"
  by (simp_all add: go_index_def)

lemma fold_res_append:
  "fold_res f (xs @ ys) s = bind_res (fold_res f xs s) (fold_res f ys)"
proof (induction xs arbitrary: s)
  case Nil
  then show ?case by simp
next
  case (Cons x xs)
  then show ?case by (cases "f x s") simp_all
qed

text \<open>An invariant of a loop body that may panic is an invariant of the loop.\<close>

lemma fold_res_invariant:
  assumes "fold_res f xs s = Inr t" and "P s"
    and "\<And>x s t. x \<in> set xs \<Longrightarrow> f x s = Inr t \<Longrightarrow> P s \<Longrightarrow> P t"
  shows "P t"
  using assms
proof (induction xs arbitrary: s)
  case Nil
  then show ?case by simp
next
  case (Cons x xs)
  then obtain u where u: "f x s = Inr u" "fold_res f xs u = Inr t" by auto
  have "P u" using Cons.prems(2,3) u(1) by (meson list.set_intros(1))
  then show ?case using Cons.IH u(2) Cons.prems(3) by (meson list.set_intros(2))
qed

text \<open>A loop panics only if one of its iterations does.\<close>

lemma fold_res_total:
  assumes "\<And>x s. x \<in> set xs \<Longrightarrow> \<exists>t. f x s = Inr t"
  shows "\<exists>t. fold_res f xs s = Inr t"
  using assms
proof (induction xs arbitrary: s)
  case Nil
  then show ?case by simp
next
  case (Cons x xs)
  then obtain u where "f x s = Inr u" by (meson list.set_intros(1))
  with Cons show ?case by simp
qed

lemma range_order_id: "range_order (\<lambda>xs. xs)"
  by (simp add: range_order_def)

lemma range_order_rev: "range_order rev"
  by (simp add: range_order_def)

lemma range_order_set: "range_order ord \<Longrightarrow> set (ord xs) = set xs"
  unfolding range_order_def by (metis set_mset_mset)

lemma range_order_distinct:
  "range_order ord \<Longrightarrow> distinct (map fst (ord xs)) = distinct (map fst xs)"
  unfolding range_order_def by (metis mset_eq_imp_distinct_iff mset_map)

lemma range_order_map_of:
  assumes "range_order ord" and "distinct (map fst xs)"
  shows "map_of (ord xs) = map_of xs"
  using assms by (metis map_of_inject_set range_order_distinct range_order_set)

text \<open>A loop inside a loop is one loop over the pairs.\<close>

lemma fold_res_nested:
  "fold_res (\<lambda>x. fold_res (f x) (g x)) xs s =
     fold_res (\<lambda>(x, y). f x y) (concat (map (\<lambda>x. map (Pair x) (g x)) xs)) s"
proof (induction xs arbitrary: s)
  case Nil
  then show ?case by simp
next
  case (Cons x xs)
  have "fold_res (f x) ys s = fold_res (\<lambda>(x, y). f x y) (map (Pair x) ys) s" for ys s
    by (induction ys arbitrary: s) (simp_all add: bind_res_def split: sum.splits)
  with Cons show ?case by (simp add: fold_res_append bind_res_def split: sum.splits)
qed

lemma fold_res_map: "fold_res f (map g xs) s = fold_res (\<lambda>x. f (g x)) xs s"
  by (induction xs arbitrary: s) (simp_all add: bind_res_def split: sum.splits)

lemma find_append:
  "find P (xs @ ys) = (case find P xs of Some x \<Rightarrow> Some x | None \<Rightarrow> find P ys)"
  by (induction xs) simp_all

lemma find_SomeD: "find P xs = Some x \<Longrightarrow> x \<in> set xs \<and> P x"
  by (auto simp: find_Some_iff)

lemma set_of_image_mset_set:
  assumes "finite A" and "mset xs = image_mset f (mset_set A)"
  shows "set xs = f ` A"
proof -
  have "set_mset (mset xs) = set_mset (image_mset f (mset_set A))" using assms(2) by simp
  with assms(1) show ?thesis by simp
qed

lemma mset_set_distinct:
  assumes "mset xs = mset_set A"
  shows "distinct xs"
proof (cases "finite A")
  case True
  then have "set xs = A" using assms set_of_image_mset_set[of A xs "\<lambda>x. x"] by simp
  with True assms show ?thesis by (simp add: distinct_count_atmost_1)
next
  case False
  with assms show ?thesis by simp
qed

lemma find_list_all2:
  assumes "list_all2 R xs zs" and "\<And>x z. R x z \<Longrightarrow> P x = Q z"
  shows "rel_option R (find P xs) (find Q zs)"
  using assms(1) by (induction rule: list_all2_induct) (auto dest: assms(2))

lemma find_key_iff:
  assumes "distinct (map f xs)"
  shows "find (\<lambda>x. f x = k) xs = Some x \<longleftrightarrow> x \<in> set xs \<and> f x = k"
proof
  assume "find (\<lambda>x. f x = k) xs = Some x"
  then show "x \<in> set xs \<and> f x = k" by (rule find_SomeD)
next
  assume x: "x \<in> set xs \<and> f x = k"
  show "find (\<lambda>x. f x = k) xs = Some x"
  proof (cases "find (\<lambda>x. f x = k) xs")
    case None
    with x show ?thesis by (auto simp: find_None_iff)
  next
    case (Some y)
    then have "y \<in> set xs \<and> f y = k" by (rule find_SomeD)
    with x assms have "y = x" by (metis distinct_map inj_onD)
    with Some show ?thesis by simp
  qed
qed

text \<open>Looking up by a key that is unique does not depend on the order.\<close>

lemma find_key_perm:
  assumes "mset zs = mset ys" and "distinct (map f ys)"
  shows "find (\<lambda>x. f x = k) zs = find (\<lambda>x. f x = k) ys"
proof -
  have d: "distinct (map f zs)" using assms by (metis mset_eq_imp_distinct_iff mset_map)
  have "set zs = set ys" using assms(1) by (rule mset_eq_setD)
  then have "find (\<lambda>x. f x = k) zs = Some x \<longleftrightarrow> find (\<lambda>x. f x = k) ys = Some x" for x
    by (simp add: find_key_iff[OF d] find_key_iff[OF assms(2)])
  then show ?thesis by (metis option.exhaust)
qed

section \<open>Step relations\<close>

text \<open>
  What the state machines of the components share: an invariant that every step keeps holds in
  every state reached, and a machine whose steps use up a measure stops.
\<close>

locale invariant_steps =
  fixes step :: "'s \<Rightarrow> 's \<Rightarrow> bool" and inv :: "'s \<Rightarrow> bool"
  assumes step_inv: "step s t \<Longrightarrow> inv s \<Longrightarrow> inv t"
begin

lemma reach_inv:
  assumes "step\<^sup>*\<^sup>* s t" and "inv s"
  shows "inv t"
  using assms by (induction rule: rtranclp_induct) (auto intro: step_inv)

text \<open>A quantity that steps keep where the invariant holds.\<close>

lemma reach_keeps:
  assumes "step\<^sup>*\<^sup>* s t" and "inv s" and "\<And>s t. step s t \<Longrightarrow> inv s \<Longrightarrow> f t = f s"
  shows "f t = f s"
  using assms(1,2)
proof (induction rule: rtranclp_induct)
  case (step u t)
  have "inv u" by (rule reach_inv[OF step.hyps(1) step.prems])
  with step assms(3) show ?case by metis
qed simp

end

locale terminating_steps = invariant_steps +
  fixes left :: "'s \<Rightarrow> nat"
  assumes step_less: "step s t \<Longrightarrow> inv s \<Longrightarrow> left t < left s"
begin

lemma run_bound: "(step ^^ m) s t \<Longrightarrow> inv s \<Longrightarrow> inv t \<and> left t + m \<le> left s"
proof (induction m arbitrary: t)
  case (Suc m)
  then obtain u where u: "(step ^^ m) s u" "step u t" by auto
  with Suc have "inv u" "left u + m \<le> left s" by blast+
  with step_inv[OF u(2)] step_less[OF u(2)] show ?case by force
qed auto

lemma no_infinite_run:
  assumes "inv s"
  shows "\<not> (\<exists>f. f 0 = s \<and> (\<forall>i. step (f i) (f (Suc i))))"
proof
  assume "\<exists>f. f 0 = s \<and> (\<forall>i. step (f i) (f (Suc i)))"
  then obtain f where f: "f 0 = s" "\<And>i. step (f i) (f (Suc i))" by blast
  have inv: "inv (f i)" for i by (induction i) (simp_all add: f(1) assms step_inv[OF f(2)])
  have "left (f i) + i \<le> left s" for i
  proof (induction i)
    case (Suc i)
    with step_less[OF f(2) inv, of i] show ?case by linarith
  qed (simp add: f(1))
  from this[of "Suc (left s)"] show False by simp
qed

lemma stops:
  assumes "inv s"
  shows "\<exists>t. step\<^sup>*\<^sup>* s t \<and> \<not> (\<exists>u. step t u)"
  using assms
proof (induction "left s" arbitrary: s rule: less_induct)
  case less
  show ?case
  proof (cases "\<exists>u. step s u")
    case True
    then obtain u where u: "step s u" by blast
    with less.hyps[OF step_less[OF u less.prems] step_inv[OF u less.prems]] show ?thesis
      by (meson converse_rtranclp_into_rtranclp)
  qed blast
qed

end

end
