(* ===== verification/GoStrings.thy ===== *)
theory GoStrings
  imports Prelude "HOL-Library.Sublist"
begin

text \<open>
  The functions of Go's \<open>strings\<close>, \<open>strconv\<close> and \<open>net\<close> packages that the controller calls,
  on byte strings. They belong to the standard library, so they are modelled here; the
  component theories use them under these names.
\<close>

section \<open>strings\<close>

definition HasPrefix :: "string \<Rightarrow> string \<Rightarrow> bool" where
  "HasPrefix s p = prefix p s"

text \<open>\<open>strings.Index\<close>; \<open>None\<close> stands for \<open>-1\<close>.\<close>

primrec Index :: "string \<Rightarrow> string \<Rightarrow> nat option" where
  "Index [] sub = (if sub = [] then Some 0 else None)"
| "Index (c # cs) sub =
     (if prefix sub (c # cs) then Some 0 else map_option Suc (Index cs sub))"

definition Contains :: "string \<Rightarrow> string \<Rightarrow> bool" where
  "Contains s sub = (Index s sub \<noteq> None)"

lemma Index_Some_le: "Index s sub = Some i \<Longrightarrow> i + length sub \<le> length s"
proof (induction s arbitrary: i)
  case Nil
  then show ?case by (simp split: if_splits)
next
  case (Cons c cs)
  then show ?case by (auto split: if_splits dest: prefix_length_le)
qed

text \<open>
  \<open>strings.Split\<close> with a non-empty separator, the only kind the controller passes.
\<close>

function Split :: "string \<Rightarrow> string \<Rightarrow> string list" where
  "Split s sep =
     (case (if sep = [] then None else Index s sep) of
        None \<Rightarrow> [s]
      | Some i \<Rightarrow> take i s # Split (drop (i + length sep) s) sep)"
  by pat_completeness auto
termination
proof (relation "measure (\<lambda>(s, sep). length s)")
  show "wf (measure (\<lambda>(s :: string, sep :: string). length s))" by simp
next
  fix s sep :: string and i :: nat
  assume "(if sep = [] then None else Index s sep) = Some i"
  then have "sep \<noteq> []" and "i + length sep \<le> length s"
    by (auto split: if_splits dest: Index_Some_le)
  then show "((drop (i + length sep) s, sep), s, sep) \<in> measure (\<lambda>(s, sep). length s)"
    by (cases sep) auto
qed

declare Split.simps [simp del]

text \<open>\<open>strings.Join\<close>.\<close>

fun Join :: "string list \<Rightarrow> string \<Rightarrow> string" where
  "Join [] sep = []"
| "Join [x] sep = x"
| "Join (x # y # xs) sep = x @ sep @ Join (y # xs) sep"

text \<open>
  \<open>strings.TrimSpace\<close> removes leading and trailing code points with the Unicode
  \<open>White_Space\<close> property; \<open>white_spaces\<close> lists their UTF-8 encodings.
\<close>

definition white_spaces :: "string list" where
  "white_spaces =
     [[CHR 0x09], [CHR 0x0A], [CHR 0x0B], [CHR 0x0C], [CHR 0x0D], [CHR 0x20],
      [CHR 0xC2, CHR 0x85], [CHR 0xC2, CHR 0xA0], [CHR 0xE1, CHR 0x9A, CHR 0x80],
      [CHR 0xE2, CHR 0x80, CHR 0x80], [CHR 0xE2, CHR 0x80, CHR 0x81],
      [CHR 0xE2, CHR 0x80, CHR 0x82], [CHR 0xE2, CHR 0x80, CHR 0x83],
      [CHR 0xE2, CHR 0x80, CHR 0x84], [CHR 0xE2, CHR 0x80, CHR 0x85],
      [CHR 0xE2, CHR 0x80, CHR 0x86], [CHR 0xE2, CHR 0x80, CHR 0x87],
      [CHR 0xE2, CHR 0x80, CHR 0x88], [CHR 0xE2, CHR 0x80, CHR 0x89],
      [CHR 0xE2, CHR 0x80, CHR 0x8A], [CHR 0xE2, CHR 0x80, CHR 0xA8],
      [CHR 0xE2, CHR 0x80, CHR 0xA9], [CHR 0xE2, CHR 0x80, CHR 0xAF],
      [CHR 0xE2, CHR 0x81, CHR 0x9F], [CHR 0xE3, CHR 0x80, CHR 0x80]]"

text \<open>Strip members of \<open>ws\<close> from the front, as often as one is a prefix.\<close>

function strip_front :: "string list \<Rightarrow> string \<Rightarrow> string" where
  "strip_front ws s =
     (case find (\<lambda>w. w \<noteq> [] \<and> prefix w s) ws of
        None \<Rightarrow> s
      | Some w \<Rightarrow> strip_front ws (drop (length w) s))"
  by pat_completeness auto
termination
proof (relation "measure (\<lambda>(ws, s). length s)")
  show "wf (measure (\<lambda>(ws :: string list, s :: string). length s))" by simp
next
  fix ws :: "string list" and s w :: string
  assume "find (\<lambda>w. w \<noteq> [] \<and> prefix w s) ws = Some w"
  then have "w \<noteq> []" and "prefix w s" by (auto simp: find_Some_iff)
  then have "length w \<le> length s" by (auto dest: prefix_length_le)
  with \<open>w \<noteq> []\<close> show "((ws, drop (length w) s), ws, s) \<in> measure (\<lambda>(ws, s). length s)"
    by (cases w) auto
qed

declare strip_front.simps [simp del]

definition TrimSpace :: "string \<Rightarrow> string" where
  "TrimSpace s =
     rev (strip_front (map rev white_spaces) (rev (strip_front white_spaces s)))"

section \<open>strconv\<close>

definition is_digit :: "char \<Rightarrow> bool" where
  "is_digit c \<longleftrightarrow> 48 \<le> (of_char c :: int) \<and> (of_char c :: int) \<le> 57"

definition digit_val :: "char \<Rightarrow> int" where
  "digit_val c = of_char c - 48"

definition digit_char :: "int \<Rightarrow> char" where
  "digit_char d = char_of (48 + d)"

definition dec_val :: "string \<Rightarrow> int" where
  "dec_val s = foldl (\<lambda>n c. 10 * n + digit_val c) 0 s"

text \<open>The decimal digits of a non-negative integer, the most significant first.\<close>

function dec_digits :: "int \<Rightarrow> string" where
  "dec_digits n =
     (if n < 10 then [digit_char n] else dec_digits (n div 10) @ [digit_char (n mod 10)])"
  by pat_completeness auto
termination
  by (relation "measure nat") auto

declare dec_digits.simps [simp del]

text \<open>\<open>strconv.Itoa\<close>, and \<open>fmt.Sprintf("%v", n)\<close> on an integer.\<close>

definition Itoa :: "int \<Rightarrow> string" where
  "Itoa i = (if i < 0 then CHR ''-'' # dec_digits (- i) else dec_digits i)"

text \<open>
  \<open>%q\<close> of \<open>fmt\<close>. Bytes from 0x80 on are kept, as for printable text in UTF-8.
\<close>

definition hex_digit :: "int \<Rightarrow> char" where
  "hex_digit n = ''0123456789abcdef'' ! nat n"

definition quote_char :: "char \<Rightarrow> string" where
  "quote_char c =
     (if c = CHR 0x22 then [CHR 0x5C, CHR 0x22]
      else if c = CHR 0x5C then [CHR 0x5C, CHR 0x5C]
      else if c = CHR 0x07 then [CHR 0x5C, CHR ''a'']
      else if c = CHR 0x08 then [CHR 0x5C, CHR ''b'']
      else if c = CHR 0x0C then [CHR 0x5C, CHR ''f'']
      else if c = CHR 0x0A then [CHR 0x5C, CHR ''n'']
      else if c = CHR 0x0D then [CHR 0x5C, CHR ''r'']
      else if c = CHR 0x09 then [CHR 0x5C, CHR ''t'']
      else if c = CHR 0x0B then [CHR 0x5C, CHR ''v'']
      else if (of_char c :: int) < 0x20 \<or> (of_char c :: int) = 0x7F
      then [CHR 0x5C, CHR ''x'', hex_digit (of_char c div 16), hex_digit (of_char c mod 16)]
      else [c])"

definition Quote :: "string \<Rightarrow> string" where
  "Quote s = [CHR 0x22] @ concat (map quote_char s) @ [CHR 0x22]"

text \<open>
  \<open>strconv.Atoi\<close> on a 64-bit platform: an optional sign, then decimal digits, and a value
  in the range of \<open>int\<close>; \<open>None\<close> stands for any error.
\<close>

definition in_int64 :: "int \<Rightarrow> bool" where
  "in_int64 i \<longleftrightarrow> - (2 ^ 63) \<le> i \<and> i < 2 ^ 63"

definition Atoi :: "string \<Rightarrow> int option" where
  "Atoi s =
     (let neg = (case s of c # _ \<Rightarrow> c = CHR ''-'' | [] \<Rightarrow> False);
          ds = (case s of c # cs \<Rightarrow> (if c = CHR ''-'' \<or> c = CHR ''+'' then cs else s) | [] \<Rightarrow> []);
          v = (if neg then - dec_val ds else dec_val ds)
      in if ds \<noteq> [] \<and> list_all is_digit ds \<and> in_int64 v then Some v else None)"

text \<open>\<open>strconv.ParseBool\<close>; \<open>None\<close> stands for the syntax error.\<close>

definition ParseBool :: "string \<Rightarrow> bool option" where
  "ParseBool s =
     (if s \<in> set [''1'', ''t'', ''T'', ''true'', ''TRUE'', ''True''] then Some True
      else if s \<in> set [''0'', ''f'', ''F'', ''false'', ''FALSE'', ''False''] then Some False
      else None)"

text \<open>The conversion \<open>int32(n)\<close> of a 64-bit integer keeps its low 32 bits.\<close>

definition int32_of :: "int \<Rightarrow> int" where
  "int32_of n = (n + 2 ^ 31) mod 2 ^ 32 - 2 ^ 31"

section \<open>net\<close>

text \<open>\<open>net.JoinHostPort\<close>: a host with a colon is put in brackets.\<close>

definition JoinHostPort :: "string \<Rightarrow> string \<Rightarrow> string" where
  "JoinHostPort host port =
     (if CHR '':'' \<in> set host then ''['' @ host @ '']:'' @ port else host @ '':'' @ port)"

text \<open>
  \<open>net.ParseIP(s) != nil\<close>, after the parser of Go 1.12 (the toolchain of this code's
  dependencies): \<open>dtoi\<close> and \<open>xtoi\<close> read a number below \<open>0xFFFFFF\<close> and return it with the
  rest of the string. \<open>ipv6_groups k ell s\<close> is the loop of \<open>parseIPv6\<close> with room for
  \<open>k\<close> more 16-bit groups, \<open>ell\<close> telling whether an ellipsis was seen.
\<close>

definition is_hex :: "char \<Rightarrow> bool" where
  "is_hex c \<longleftrightarrow> is_digit c \<or> (97 \<le> (of_char c :: int) \<and> (of_char c :: int) \<le> 102)
     \<or> (65 \<le> (of_char c :: int) \<and> (of_char c :: int) \<le> 70)"

definition hex_digit_val :: "char \<Rightarrow> int" where
  "hex_digit_val c =
     (if is_digit c then of_char c - 48
      else if 97 \<le> (of_char c :: int) then of_char c - 87 else of_char c - 55)"

definition dtoi :: "string \<Rightarrow> (int \<times> string) option" where
  "dtoi s =
     (let ds = takeWhile is_digit s; n = dec_val ds
      in if ds = [] \<or> 0xFFFFFF \<le> n then None else Some (n, dropWhile is_digit s))"

definition xtoi :: "string \<Rightarrow> (int \<times> string) option" where
  "xtoi s =
     (let ds = takeWhile is_hex s; n = foldl (\<lambda>n c. 16 * n + hex_digit_val c) 0 ds
      in if ds = [] \<or> 0xFFFFFF \<le> n then None else Some (n, dropWhile is_hex s))"

primrec ipv4_octets :: "nat \<Rightarrow> string \<Rightarrow> bool" where
  "ipv4_octets 0 s = (s = [])"
| "ipv4_octets (Suc k) s =
     (case (if k = 3 then Some s
            else (case s of c # cs \<Rightarrow> (if c = CHR ''.'' then Some cs else None) | [] \<Rightarrow> None)) of
        None \<Rightarrow> False
      | Some t \<Rightarrow> (case dtoi t of
          None \<Rightarrow> False
        | Some (n, rest) \<Rightarrow> n \<le> 0xFF \<and> ipv4_octets k rest))"

definition parseIPv4 :: "string \<Rightarrow> bool" where
  "parseIPv4 s = ipv4_octets 4 s"

primrec ipv6_groups :: "nat \<Rightarrow> bool \<Rightarrow> string \<Rightarrow> bool" where
  "ipv6_groups 0 ell s = (s = [] \<and> \<not> ell)"
| "ipv6_groups (Suc k) ell s =
     (case xtoi s of
        None \<Rightarrow> False
      | Some (n, rest) \<Rightarrow>
          if 0xFFFF < n then False
          else (case rest of
            [] \<Rightarrow> ell = (0 < k)
          | c # s1 \<Rightarrow>
              if c = CHR ''.'' then
                (ell \<or> k = 1) \<and> 1 \<le> k \<and> parseIPv4 s \<and> ell = (1 < k)
              else if c \<noteq> CHR '':'' then False
              else (case s1 of
                [] \<Rightarrow> False
              | d # s2 \<Rightarrow>
                  if d = CHR '':'' then
                    (if ell then False
                     else if s2 = [] then 0 < k
                     else ipv6_groups k True s2)
                  else ipv6_groups k ell s1)))"

definition parseIPv6 :: "string \<Rightarrow> bool" where
  "parseIPv6 s =
     (case s of
        a # b # rest \<Rightarrow>
          if a = CHR '':'' \<and> b = CHR '':'' then rest = [] \<or> ipv6_groups 8 True rest
          else ipv6_groups 8 False s
      | _ \<Rightarrow> ipv6_groups 8 False s)"

definition ParseIP :: "string \<Rightarrow> bool" where
  "ParseIP s =
     (case find (\<lambda>c. c = CHR ''.'' \<or> c = CHR '':'') s of
        None \<Rightarrow> False
      | Some c \<Rightarrow> if c = CHR ''.'' then parseIPv4 s else parseIPv6 s)"

section \<open>Facts about the string functions\<close>

lemma Index_Some_split:
  "Index s sub = Some i \<Longrightarrow> s = take i s @ sub @ drop (i + length sub) s"
proof (induction s arbitrary: i)
  case Nil
  then show ?case by (simp split: if_splits)
next
  case (Cons c cs)
  show ?case
  proof (cases "prefix sub (c # cs)")
    case True
    with Cons.prems show ?thesis by (auto elim: prefixE)
  next
    case False
    with Cons.prems obtain j where "i = Suc j" "Index cs sub = Some j" by auto
    with Cons.IH show ?thesis by simp
  qed
qed

lemma Index_append_Some: "\<exists>i. Index (a @ sub @ b) sub = Some i \<and> i \<le> length a"
proof (induction a)
  case Nil
  have "prefix sub (sub @ b)" by simp
  then show ?case by (cases "sub @ b") simp_all
next
  case (Cons c a)
  then show ?case by auto
qed

lemma Contains_iff_sublist: "Contains s sub \<longleftrightarrow> sublist sub s"
  unfolding Contains_def sublist_def
  by (metis Index_Some_split Index_append_Some option.distinct(1) option.exhaust)

lemma Contains_append [simp]: "Contains (p @ s) p"
  by (simp add: Contains_iff_sublist)

lemma Split_None: "Index s sep = None \<Longrightarrow> Split s sep = [s]"
  by (simp add: Split.simps)

lemma Split_Some:
  "sep \<noteq> [] \<Longrightarrow> Index s sep = Some i \<Longrightarrow>
   Split s sep = take i s # Split (drop (i + length sep) s) sep"
  by (subst Split.simps) simp

lemma Split_not_Nil [simp]: "Split s sep \<noteq> []"
  by (subst Split.simps) (simp split: option.splits)

lemma Split_nth_1:
  assumes "sep \<noteq> []" and "Index s sep \<noteq> None"
  shows "1 < length (Split s sep)"
  using assms by (auto simp: Split_Some)

lemma Join_Cons: "xs \<noteq> [] \<Longrightarrow> Join (x # xs) sep = x @ sep @ Join xs sep"
  by (cases xs) simp_all

lemma Join_Split: "Join (Split s sep) sep = s"
proof (induction s sep rule: Split.induct)
  case (1 s sep)
  show ?case
  proof (cases "if sep = [] then None else Index s sep")
    case None
    then show ?thesis by (simp add: Split.simps)
  next
    case (Some i)
    then have ne: "sep \<noteq> []" and i: "Index s sep = Some i" by (auto split: if_splits)
    have "Join (Split s sep) sep = take i s @ sep @ drop (i + length sep) s"
      using "1.IH"[OF Some] ne i by (simp add: Split_Some Join_Cons)
    with Index_Some_split[OF i] show ?thesis by simp
  qed
qed

lemma Index_char_None: "c \<notin> set s \<Longrightarrow> Index s [c] = None"
  by (induction s) auto

lemma Index_char_append: "c \<notin> set a \<Longrightarrow> Index (a @ c # b) [c] = Some (length a)"
  by (induction a) auto

lemma Split_char_append:
  "c \<notin> set a \<Longrightarrow> Split (a @ c # b) [c] = a # Split b [c]"
  by (simp add: Split_Some Index_char_append)

lemma Split_char_None: "c \<notin> set s \<Longrightarrow> Split s [c] = [s]"
  by (simp add: Split_None Index_char_None)

lemma Split_char_parts: "x \<in> set (Split s [c]) \<Longrightarrow> c \<notin> set x"
proof (induction s "[c]" rule: Split.induct)
  case (1 s)
  show ?case
  proof (cases "c \<in> set s")
    case False
    with "1.prems" show ?thesis by (simp add: Split_char_None)
  next
    case True
    then obtain a b where s: "s = a @ c # b" "c \<notin> set a" by (meson split_list_first)
    then have i: "Index s [c] = Some (length a)" by (simp add: Index_char_append)
    with 1 s show ?thesis by (auto simp: Split_char_append)
  qed
qed

lemma Split_char_hd: "hd (Split s [c]) = takeWhile (\<lambda>d. d \<noteq> c) s"
proof (cases "c \<in> set s")
  case False
  then have eq: "takeWhile (\<lambda>d. d \<noteq> c) s = s" by (intro takeWhile_eq_all_conv[THEN iffD2]) auto
  show ?thesis unfolding eq Split_char_None[OF False] by simp
next
  case True
  then obtain a b where s: "s = a @ c # b" "c \<notin> set a" by (meson split_list_first)
  then have "takeWhile (\<lambda>d. d \<noteq> c) a = a" by (intro takeWhile_eq_all_conv[THEN iffD2]) auto
  with s show ?thesis by (simp add: Split_char_append takeWhile_tail)
qed

section \<open>Decimal numbers\<close>

lemma digit_char_of: "0 \<le> d \<Longrightarrow> d < 10 \<Longrightarrow> of_char (digit_char d) = 48 + (d :: int)"
  by (simp add: digit_char_def)

lemma digit_char_props:
  assumes "0 \<le> d" and "d < 10"
  shows "is_digit (digit_char d)" and "digit_val (digit_char d) = d"
  using assms by (simp_all add: is_digit_def digit_val_def digit_char_of)

lemma dec_val_snoc: "dec_val (s @ [c]) = 10 * dec_val s + digit_val c"
  by (simp add: dec_val_def)

lemma dec_digits_props:
  assumes "0 \<le> n"
  shows "list_all is_digit (dec_digits n) \<and> dec_val (dec_digits n) = n \<and> dec_digits n \<noteq> []"
  using assms
proof (induction n rule: dec_digits.induct)
  case (1 n)
  show ?case
  proof (cases "n < 10")
    case True
    with 1 show ?thesis
      by (subst (1 2 3) dec_digits.simps) (simp add: digit_char_props dec_val_def)
  next
    case False
    with 1 have "list_all is_digit (dec_digits (n div 10)) \<and> dec_val (dec_digits (n div 10)) = n div 10"
      by simp
    with False "1.prems" show ?thesis
      by (subst (1 2 3) dec_digits.simps) (simp add: digit_char_props dec_val_snoc)
  qed
qed

lemma is_digit_not: "is_digit c \<Longrightarrow> c \<noteq> CHR ''-'' \<and> c \<noteq> CHR ''+'' \<and> c \<noteq> CHR '':''"
  by (auto simp: is_digit_def)

lemma Itoa_nonneg_digits: "0 \<le> i \<Longrightarrow> list_all is_digit (Itoa i)"
  by (simp add: Itoa_def dec_digits_props)

lemma Itoa_no_colon: "CHR '':'' \<notin> set (Itoa i)"
proof -
  have "CHR '':'' \<notin> set (dec_digits n)" if "0 \<le> n" for n
    using dec_digits_props[OF that] is_digit_not by (auto simp: list_all_iff)
  then show ?thesis by (simp add: Itoa_def)
qed

lemma Atoi_Itoa:
  assumes "in_int64 i"
  shows "Atoi (Itoa i) = Some i"
proof (cases "i < 0")
  case True
  then show ?thesis using assms dec_digits_props[of "- i"]
    by (simp add: Atoi_def Itoa_def Let_def)
next
  case False
  then have *: "list_all is_digit (dec_digits i)" "dec_val (dec_digits i) = i" "dec_digits i \<noteq> []"
    using dec_digits_props[of i] by auto
  then obtain c cs where c: "dec_digits i = c # cs" by (cases "dec_digits i") auto
  with * is_digit_not[of c] have "c \<noteq> CHR ''-''" "c \<noteq> CHR ''+''" by auto
  with * False assms c show ?thesis by (simp add: Atoi_def Itoa_def Let_def)
qed

lemma Itoa_inject: "Itoa i = Itoa j \<longleftrightarrow> i = j"
proof -
  have inv: "n = m" if "0 \<le> n" "0 \<le> m" "dec_digits n = dec_digits m" for n m
    using dec_digits_props[OF that(1)] dec_digits_props[OF that(2)] that(3) by metis
  have hyp: "dec_digits n \<noteq> CHR ''-'' # s" if "0 \<le> n" for n s
    using dec_digits_props[OF that] is_digit_not[of "CHR ''-''"] by auto
  show ?thesis
  proof (cases "i < 0"; cases "j < 0")
    assume "i < 0" "j < 0"
    then show ?thesis using inv[of "- i" "- j"] by (auto simp: Itoa_def)
  next
    assume "i < 0" "\<not> j < 0"
    then show ?thesis using hyp[of j] by (auto simp: Itoa_def dest: sym)
  next
    assume "\<not> i < 0" "j < 0"
    then show ?thesis using hyp[of i] by (auto simp: Itoa_def)
  next
    assume "\<not> i < 0" "\<not> j < 0"
    then show ?thesis using inv[of i j] by (auto simp: Itoa_def)
  qed
qed

lemma append_first_Cons_eq:
  "c \<notin> set p \<Longrightarrow> c \<notin> set q \<Longrightarrow> p @ c # a = q @ c # b \<Longrightarrow> p = q \<and> a = b"
proof (induction p arbitrary: q)
  case Nil
  then show ?case by (cases q) auto
next
  case (Cons d p)
  then show ?case by (cases q) auto
qed

lemma append_last_Cons_eq:
  assumes "a @ c # p = b @ c # q" and "c \<notin> set p" and "c \<notin> set q"
  shows "a = b \<and> p = q"
proof -
  have "rev p @ c # rev a = rev q @ c # rev b"
    using arg_cong[OF assms(1), of rev] by simp
  then have "rev p = rev q \<and> rev a = rev b"
    using assms(2,3) by (intro append_first_Cons_eq) auto
  then show ?thesis by simp
qed

lemma JoinHostPort_inject:
  assumes "CHR '':'' \<notin> set p" and "CHR '':'' \<notin> set q"
  shows "JoinHostPort h p = JoinHostPort k q \<longleftrightarrow> h = k \<and> p = q"
proof
  define br where "br x = (if CHR '':'' \<in> set x then ''['' @ x @ '']'' else x)" for x :: string
  have br: "JoinHostPort x r = br x @ CHR '':'' # r" for x r
    by (simp add: JoinHostPort_def br_def)
  assume "JoinHostPort h p = JoinHostPort k q"
  then have "br h = br k \<and> p = q"
    unfolding br using assms by (intro append_last_Cons_eq[of _ "CHR '':''"])
  then show "h = k \<and> p = q" by (auto simp: br_def split: if_splits)
qed simp

end
