(* ===== verification/GoHttp.thy ===== *)
theory GoHttp
  imports GoStrings
begin

text \<open>
  The part of \<open>net/http\<close> and \<open>net/http/httputil\<close> that the proxy uses: the request with its
  cookies, the response writer, \<open>http.Error\<close> and the reverse proxy. The answer of the
  upstream server to a forwarded request is a parameter, \<open>roundTrip\<close>.
\<close>

section \<open>Requests and cookies\<close>

record http_request =
  req_Method :: string
  req_Host :: string
  req_RequestURI :: string
  req_Cookie :: "string list"

definition token_char :: "char \<Rightarrow> bool" where
  "token_char c \<longleftrightarrow> is_digit c \<or> (65 \<le> (of_char c :: int) \<and> (of_char c :: int) \<le> 90)
     \<or> (97 \<le> (of_char c :: int) \<and> (of_char c :: int) \<le> 122)
     \<or> c \<in> set ''!#$%&*+-.^_|~'' \<or> c = CHR 0x27 \<or> c = CHR 0x60"

definition isCookieNameValid :: "string \<Rightarrow> bool" where
  "isCookieNameValid raw \<longleftrightarrow> raw \<noteq> '''' \<and> list_all token_char raw"

definition validCookieValueByte :: "char \<Rightarrow> bool" where
  "validCookieValueByte c \<longleftrightarrow> 0x20 \<le> (of_char c :: int) \<and> (of_char c :: int) < 0x7F
     \<and> c \<noteq> CHR 0x22 \<and> c \<noteq> CHR '';'' \<and> c \<noteq> CHR 0x5C"

definition strip_quotes :: "string \<Rightarrow> string" where
  "strip_quotes raw =
     (if 1 < length raw \<and> hd raw = CHR 0x22 \<and> last raw = CHR 0x22 then butlast (tl raw) else raw)"

definition parseCookieValue :: "string \<Rightarrow> string option" where
  "parseCookieValue raw =
     (let v = strip_quotes raw in if list_all validCookieValueByte v then Some v else None)"

text \<open>One \<open>name=value\<close> part of a Cookie header.\<close>

definition cookie_part :: "string \<Rightarrow> string \<Rightarrow> string option" where
  "cookie_part name part0 =
     (let part = TrimSpace part0 in
      if part = [] then None
      else (let (n, v) = (case Index part ''='' of
                   None \<Rightarrow> (part, [])
                 | Some j \<Rightarrow> (take j part, drop (Suc j) part))
            in if \<not> isCookieNameValid n \<or> n \<noteq> name then None else parseCookieValue v))"

definition cookie_line :: "string \<Rightarrow> string \<Rightarrow> string list" where
  "cookie_line name line = List.map_filter (cookie_part name) (Split (TrimSpace line) '';'')"

text \<open>\<open>r.Cookie(name)\<close>; \<open>None\<close> is \<open>ErrNoCookie\<close>, the only error it returns.\<close>

definition request_Cookie :: "http_request \<Rightarrow> string \<Rightarrow> string option" where
  "request_Cookie req name =
     (case concat (map (cookie_line name) (req_Cookie req)) of [] \<Rightarrow> None | v # _ \<Rightarrow> Some v)"

section \<open>Responses\<close>

text \<open>
  \<open>rw_status\<close> is the status code once it has been written; a later \<open>WriteHeader\<close> has no
  effect on it. \<open>rw_body\<close> lists what was handed to \<open>Write\<close>.
\<close>

type_synonym http_header = "(string, string list) go_map"

record response_writer =
  rw_header :: http_header
  rw_status :: "int option"
  rw_body :: "string list"

definition new_response :: response_writer where
  "new_response = \<lparr>rw_header = [], rw_status = None, rw_body = []\<rparr>"

definition Header_Get :: "http_header \<Rightarrow> string \<Rightarrow> string" where
  "Header_Get h key = (case map_of h key of Some (v # _) \<Rightarrow> v | _ \<Rightarrow> '''')"

definition Header_Set :: "string \<Rightarrow> string \<Rightarrow> http_header \<Rightarrow> http_header" where
  "Header_Set key v h = AList.update key [v] h"

definition Header_Add :: "string \<Rightarrow> string list \<Rightarrow> http_header \<Rightarrow> http_header" where
  "Header_Add key vs h =
     AList.update key ((case map_of h key of None \<Rightarrow> [] | Some us \<Rightarrow> us) @ vs) h"

definition WriteHeader :: "int \<Rightarrow> response_writer \<Rightarrow> response_writer" where
  "WriteHeader code w = (case rw_status w of None \<Rightarrow> w\<lparr>rw_status := Some code\<rparr> | Some _ \<Rightarrow> w)"

definition http_Error :: "string \<Rightarrow> int \<Rightarrow> response_writer \<Rightarrow> response_writer" where
  "http_Error msg code w =
     (let w1 = w\<lparr>rw_header := Header_Set ''X-Content-Type-Options'' ''nosniff''
                   (Header_Set ''Content-Type'' ''text/plain; charset=utf-8'' (rw_header w))\<rparr>;
          w2 = WriteHeader code w1
      in w2\<lparr>rw_body := rw_body w2 @ [msg @ [CHR 0x0A]]\<rparr>)"

text \<open>What the upstream answers; \<open>rt_header\<close> is without the hop-by-hop headers.\<close>

datatype roundtrip =
    Upstream (rt_header: http_header) (rt_status: int) (rt_body: string)
  | TransportError

text \<open>
  \<open>ReverseProxy.ServeHTTP\<close>: the header, status and body of the upstream are copied to the
  response writer; a failed round trip is answered with 502.
\<close>

definition proxy_ServeHTTP :: "roundtrip \<Rightarrow> response_writer \<Rightarrow> response_writer" where
  "proxy_ServeHTTP rt w =
     (case rt of
        TransportError \<Rightarrow> WriteHeader 502 w
      | Upstream h st body \<Rightarrow>
          (let w1 = w\<lparr>rw_header := fold (\<lambda>(k, vs). Header_Add k vs) h (rw_header w)\<rparr>;
               w2 = WriteHeader st w1
           in w2\<lparr>rw_body := rw_body w2 @ [body]\<rparr>))"

section \<open>Facts\<close>

lemma http_Error_new [simp]:
  "rw_status (http_Error msg code new_response) = Some code"
  "rw_body (http_Error msg code new_response) = [msg @ [CHR 0x0A]]"
  by (simp_all add: http_Error_def new_response_def WriteHeader_def)

lemma http_Error_written:
  "rw_status w = Some st \<Longrightarrow> rw_status (http_Error msg code w) = Some st"
  "rw_body (http_Error msg code w) = rw_body w @ [msg @ [CHR 0x0A]]"
  by (simp_all add: http_Error_def WriteHeader_def Let_def split: option.splits)

lemma proxy_ServeHTTP_new:
  "rw_status (proxy_ServeHTTP (Upstream h st body) new_response) = Some st"
  "rw_body (proxy_ServeHTTP (Upstream h st body) new_response) = [body]"
  "rw_status (proxy_ServeHTTP TransportError new_response) = Some 502"
  by (simp_all add: proxy_ServeHTTP_def new_response_def WriteHeader_def)

lemma Header_Add_fresh:
  "map_of h k = None \<Longrightarrow> map_of (Header_Add k vs h) = (map_of h)(k \<mapsto> vs)"
  by (simp add: Header_Add_def update_conv')

lemma fold_Header_Add:
  "distinct (map fst h) \<Longrightarrow> fst ` set h \<inter> dom (map_of g) = {} \<Longrightarrow>
     map_of (fold (\<lambda>(k, vs). Header_Add k vs) h g) = map_of g ++ map_of h"
proof (induction h arbitrary: g)
  case Nil
  then show ?case by simp
next
  case (Cons kv h)
  obtain k vs where kv: "kv = (k, vs)" by (cases kv)
  with Cons.prems have "map_of g k = None" by (auto simp: dom_def)
  then have g: "map_of (Header_Add k vs g) = (map_of g)(k \<mapsto> vs)" by (rule Header_Add_fresh)
  then have d: "dom (map_of (Header_Add k vs g)) = insert k (dom (map_of g))" by simp
  have "map_of (fold (\<lambda>(k, vs). Header_Add k vs) h (Header_Add k vs g))
      = map_of (Header_Add k vs g) ++ map_of h"
    using Cons.prems kv by (intro Cons.IH) (auto simp: d)
  moreover have "k \<notin> dom (map_of h)" using Cons.prems kv by (simp add: dom_map_of_conv_image_fst)
  ultimately show ?case
    by (auto simp: kv g map_add_def fun_eq_iff split: option.splits)
qed

lemma proxy_header_new:
  "distinct (map fst h) \<Longrightarrow>
     map_of (rw_header (proxy_ServeHTTP (Upstream h st body) new_response)) = map_of h"
  by (simp add: proxy_ServeHTTP_def new_response_def WriteHeader_def fold_Header_Add)

text \<open>The header is kept by a later write of the status.\<close>

lemma proxy_header_TransportError [simp]:
  "rw_header (proxy_ServeHTTP TransportError new_response) = []"
  by (simp add: proxy_ServeHTTP_def new_response_def WriteHeader_def)

section \<open>Reading a cookie back\<close>

definition visible :: "char \<Rightarrow> bool" where
  "visible c \<longleftrightarrow> 0x21 \<le> (of_char c :: int) \<and> (of_char c :: int) < 0x7F"

lemma white_spaces_invisible:
  "w \<in> set white_spaces \<Longrightarrow> w \<noteq> [] \<and> \<not> visible (hd w) \<and> \<not> visible (last w)"
  by (auto simp: white_spaces_def visible_def)

lemma strip_front_id:
  assumes "\<And>w. w \<in> set ws \<Longrightarrow> w \<noteq> [] \<Longrightarrow> \<not> prefix w s"
  shows "strip_front ws s = s"
proof -
  have "find (\<lambda>w. w \<noteq> [] \<and> prefix w s) ws = None" using assms by (auto simp: find_None_iff)
  then show ?thesis by (subst strip_front.simps) simp
qed

lemma TrimSpace_id:
  assumes "s \<noteq> []" and "visible (hd s)" and "visible (last s)"
  shows "TrimSpace s = s"
proof -
  have front: "\<not> prefix w s" if "w \<in> set white_spaces" for w
    using white_spaces_invisible[OF that] assms(2) by (cases w) (auto elim: prefixE)
  have rear: "\<not> prefix w (rev s)" if w: "w \<in> set (map rev white_spaces)" for w
  proof
    assume "prefix w (rev s)"
    from w obtain v where v: "v \<in> set white_spaces" "w = rev v" by auto
    with white_spaces_invisible have "w \<noteq> []" "\<not> visible (hd w)" by (auto simp: hd_rev)
    moreover from \<open>prefix w (rev s)\<close> \<open>w \<noteq> []\<close> have "hd w = hd (rev s)" by (auto elim!: prefixE)
    ultimately show False using assms(3) by (simp add: hd_rev)
  qed
  have "strip_front white_spaces s = s" using front by (intro strip_front_id) auto
  moreover have "strip_front (map rev white_spaces) (rev s) = rev s"
    using rear by (intro strip_front_id) auto
  ultimately show ?thesis by (simp add: TrimSpace_def)
qed

lemma parseCookieValue_valid:
  assumes "list_all validCookieValueByte v"
  shows "parseCookieValue v = Some v"
proof -
  have "strip_quotes v = v" using assms by (cases v) (auto simp: strip_quotes_def validCookieValueByte_def)
  with assms show ?thesis by (simp add: parseCookieValue_def)
qed

text \<open>The client's answer to \<open>Set-Cookie: name=v\<close> is read as \<open>v\<close>.\<close>

lemma cookie_line_single:
  assumes "isCookieNameValid name" and "list_all validCookieValueByte v"
    and "CHR ''='' \<notin> set name" and "v = [] \<or> last v \<noteq> CHR '' ''"
    and "list_all visible name" and "CHR '';'' \<notin> set name"
  shows "cookie_line name (name @ ''='' @ v) = [v]"
proof -
  let ?l = "name @ ''='' @ v"
  from assms(1) have ne: "name \<noteq> []" by (simp add: isCookieNameValid_def)
  have hd: "visible (hd ?l)" using ne assms(5) by (cases name) auto
  have last: "visible (last ?l)"
  proof (cases "v = []")
    case True
    then show ?thesis by (simp add: visible_def)
  next
    case False
    with assms(2) have "validCookieValueByte (last v)" by (simp add: list_all_iff)
    moreover have "last v \<noteq> CHR '' ''" using False assms(4) by simp
    then have "(of_char (last v) :: int) \<noteq> of_char (CHR '' '')" by (metis of_char_eq_iff)
    ultimately show ?thesis using False by (simp add: validCookieValueByte_def visible_def)
  qed
  have trim: "TrimSpace ?l = ?l" using ne hd last by (intro TrimSpace_id) auto
  have "CHR '';'' \<notin> set ?l" using assms(2,6) by (auto simp: list_all_iff validCookieValueByte_def)
  then have "Split ?l '';'' = [?l]" by (rule Split_char_None)
  moreover have "Index ?l ''='' = Some (length name)" using assms(3) by (simp add: Index_char_append)
  then have "cookie_part name ?l = Some v"
    using trim ne assms(1,2) by (simp add: cookie_part_def parseCookieValue_valid)
  ultimately show ?thesis using trim by (simp add: cookie_line_def List.map_filter_def)
qed

end
