(* ===== verification/K8sTypes.thy ===== *)
theory K8sTypes
  imports GoStrings
begin

text \<open>
  The Kubernetes API objects, as far as the controller reads them, and the package
  \<open>internal/k8s\<close>. A map that is only read (annotations, labels) is the list of its entries
  sorted by key, so that \<open>reflect.DeepEqual\<close> on objects is equality of the records; a nil
  map and an empty one read alike.

  The API client and the libraries of Kubernetes are not part of the repository. What the
  code calls of them is a parameter: \<open>k8s_lib\<close> for the pure functions, with their
  documented behaviour in \<open>k8s_lib_ok\<close>, and plain function arguments for the calls to the
  API server.
\<close>

section \<open>API objects\<close>

record object_meta =
  om_namespace :: string
  om_name :: string
  om_annotations :: "(string, string) go_map"
  om_labels :: "(string, string) go_map"
  om_creationTimestamp :: int

datatype int_or_string = IntVal int | StrVal string

record object_reference =
  or_uid :: string
  or_resourceVersion :: string

datatype load_balancer_ingress = LoadBalancerIngress (lb_Hostname: string) (lb_IP: string)

record service_port =
  sp_name :: string
  sp_protocol :: string
  sp_port :: int
  sp_targetPort :: int_or_string

record service =
  svc_meta :: object_meta
  svc_type :: string
  svc_externalName :: string
  svc_externalIPs :: "string list"
  svc_ports :: "service_port list"
  svc_loadBalancer :: "load_balancer_ingress list"

record endpoint_address =
  ea_ip :: string
  ea_targetRef :: "object_reference option"

record endpoint_port =
  epp_name :: string
  epp_port :: int
  epp_protocol :: string

record endpoint_subset =
  ss_addresses :: "endpoint_address list"
  ss_ports :: "endpoint_port list"

record k8s_endpoints =
  eps_meta :: object_meta
  eps_subsets :: "endpoint_subset list"

record ingress_backend =
  ib_serviceName :: string
  ib_servicePort :: int_or_string

record http_path =
  hp_path :: string
  hp_backend :: ingress_backend

text \<open>\<open>rule.HTTP\<close> is a pointer; a rule that only names a host leaves it nil.\<close>

record ingress_rule =
  ir_host :: string
  ir_http :: "http_path list option"

record k8s_ingress =
  ing_meta :: object_meta
  ing_rules :: "ingress_rule list"
  ing_loadBalancer :: "load_balancer_ingress list"

record pod =
  pod_meta :: object_meta
  pod_phase :: string
  pod_nodeName :: string

record node_address =
  na_type :: string
  na_address :: string

type_synonym node = "node_address list"

abbreviation ServiceTypeExternalName :: string where
  "ServiceTypeExternalName \<equiv> ''ExternalName''"

abbreviation ProtocolTCP :: string where
  "ProtocolTCP \<equiv> ''TCP''"

abbreviation PodRunning :: string where
  "PodRunning \<equiv> ''Running''"

section \<open>Library functions of Kubernetes, as parameters\<close>

text \<open>
  \<open>cache.DeletionHandlingMetaNamespaceKeyFunc\<close>, \<open>intstr.IntOrString.String\<close> and
  \<open>IntValue\<close>, \<open>cache.SplitMetaNamespaceKey\<close>, and whether \<open>wait.ExponentialBackoff\<close> around
  \<open>net.LookupHost\<close> ends without an error.
\<close>

record k8s_lib =
  lib_keyFunc :: "object_meta \<Rightarrow> string or_error"
  lib_intstr_String :: "int_or_string \<Rightarrow> string"
  lib_intstr_IntValue :: "int_or_string \<Rightarrow> int"
  lib_splitKey :: "string \<Rightarrow> (string \<times> string) or_error"
  lib_lookupHost :: "string \<Rightarrow> bool"

text \<open>Their documented behaviour, where a theorem needs it.\<close>

definition namespaced_name :: "string \<Rightarrow> string \<Rightarrow> string" where
  "namespaced_name ns name = (if ns = '''' then name else ns @ ''/'' @ name)"

definition k8s_lib_ok :: "k8s_lib \<Rightarrow> bool" where
  "k8s_lib_ok lib \<longleftrightarrow>
     (\<forall>m. lib_keyFunc lib m = Inr (namespaced_name (om_namespace m) (om_name m))) \<and>
     (\<forall>n. lib_intstr_String lib (IntVal n) = Itoa n) \<and>
     (\<forall>s. lib_intstr_String lib (StrVal s) = s) \<and>
     (\<forall>n. lib_intstr_IntValue lib (IntVal n) = n) \<and>
     (\<forall>s. lib_intstr_IntValue lib (StrVal s) = (case Atoi s of Some n \<Rightarrow> n | None \<Rightarrow> 0))"

text \<open>An instance with that behaviour, for closed examples; every host name resolves.\<close>

definition example_lib :: k8s_lib where
  "example_lib = \<lparr>
     lib_keyFunc = (\<lambda>m. Inr (namespaced_name (om_namespace m) (om_name m))),
     lib_intstr_String = (\<lambda>p. case p of IntVal n \<Rightarrow> Itoa n | StrVal s \<Rightarrow> s),
     lib_intstr_IntValue =
       (\<lambda>p. case p of IntVal n \<Rightarrow> n | StrVal s \<Rightarrow> (case Atoi s of Some n \<Rightarrow> n | None \<Rightarrow> 0)),
     lib_splitKey =
       (\<lambda>k. case Split k ''/'' of [n] \<Rightarrow> Inr ('''', n) | [ns, n] \<Rightarrow> Inr (ns, n)
            | _ \<Rightarrow> Inl ''unexpected key format''),
     lib_lookupHost = (\<lambda>_. True) \<rparr>"

section \<open>internal/k8s\<close>

definition ParseNameNS :: "string \<Rightarrow> (string \<times> string) or_error" where
  "ParseNameNS input =
     (let nsName = Split input ''/'' in
      if length nsName \<noteq> 2
      then Inl (''invalid format (namespace/name) found in '' @ [CHR 0x27] @ input @ [CHR 0x27])
      else Inr (nsName ! 0, nsName ! 1))"

definition MetaNamespaceKey :: "k8s_lib \<Rightarrow> object_meta \<Rightarrow> string" where
  "MetaNamespaceKey lib m = (case lib_keyFunc lib m of Inl _ \<Rightarrow> '''' | Inr key \<Rightarrow> key)"

text \<open>The first non-empty address of the given type.\<close>

definition first_address :: "string \<Rightarrow> node \<Rightarrow> string option" where
  "first_address ty node =
     map_option na_address (find (\<lambda>a. na_type a = ty \<and> na_address a \<noteq> '''') node)"

definition GetNodeIPOrName :: "(string \<Rightarrow> node or_error) \<Rightarrow> string \<Rightarrow> bool \<Rightarrow> string" where
  "GetNodeIPOrName getNode name useInternalIP =
     (case getNode name of
        Inl _ \<Rightarrow> ''''
      | Inr node \<Rightarrow>
          (case (if useInternalIP then first_address ''InternalIP'' node else None) of
             Some a \<Rightarrow> a
           | None \<Rightarrow> (case first_address ''ExternalIP'' node of Some a \<Rightarrow> a | None \<Rightarrow> '''')))"

record pod_info =
  pi_name :: string
  pi_namespace :: string
  pi_labels :: "(string, string) go_map"

text \<open>
  \<open>getenv\<close> is \<open>os.Getenv\<close>; \<open>getPod\<close> is the pod the API server returns, \<open>None\<close> for nil (its
  error is dropped by the code).
\<close>

definition GetPodDetails ::
  "(string \<Rightarrow> string) \<Rightarrow> (string \<Rightarrow> string \<Rightarrow> pod option) \<Rightarrow> pod_info or_error" where
  "GetPodDetails getenv getPod =
     (let podName = getenv ''POD_NAME''; podNs = getenv ''POD_NAMESPACE'' in
      if podName = '''' \<or> podNs = ''''
      then Inl ''unable to get POD information (missing POD_NAME or POD_NAMESPACE environment variable''
      else (case getPod podNs podName of
              None \<Rightarrow> Inl ''unable to get POD information''
            | Some p \<Rightarrow> Inr \<lparr>pi_name = podName, pi_namespace = podNs, pi_labels = om_labels (pod_meta p)\<rparr>))"

text \<open>
  \<open>parse\<close> is \<open>version.ParseGeneric\<close> and \<open>at_least\<close> the comparison of versions. The server
  version is nil when the API server could not be asked, and the parsed running version is
  nil when it is not a version: the source drops both errors, and its later tests look at
  the error of the first call again.
\<close>

definition NetworkingIngressAvailable ::
  "(string \<Rightarrow> 'v or_error) \<Rightarrow> ('v \<Rightarrow> 'v \<Rightarrow> bool) \<Rightarrow> string option \<Rightarrow> bool res" where
  "NetworkingIngressAvailable parse at_least serverVersion =
     (case parse ''v1.14.0'' of
        Inl _ \<Rightarrow> Inr False
      | Inr version114 \<Rightarrow>
          bind_res (deref serverVersion) (\<lambda>v.
          bind_res (deref (case parse v of Inl _ \<Rightarrow> None | Inr r \<Rightarrow> Some r)) (\<lambda>runningVersion.
            Inr (at_least runningVersion version114))))"

section \<open>Facts\<close>

lemma example_lib_ok: "k8s_lib_ok example_lib"
  by (simp add: k8s_lib_ok_def example_lib_def)

lemma MetaNamespaceKey_ok:
  "k8s_lib_ok lib \<Longrightarrow> MetaNamespaceKey lib m = namespaced_name (om_namespace m) (om_name m)"
  by (simp add: k8s_lib_ok_def MetaNamespaceKey_def)

lemma first_address_Some:
  "first_address ty node = Some a \<Longrightarrow>
     a \<noteq> '''' \<and> (\<exists>x \<in> set node. na_type x = ty \<and> na_address x = a)"
  by (fastforce simp: first_address_def find_Some_iff)


section \<open>Properties\<close>

text \<open>\<open>ParseNameNS\<close> inverts the key format. A namespace and a name without a slash come back
  from their joined form, and whatever it accepts is the joined form of what it returns;
  it rejects every input whose number of slashes is not one.\<close>

lemma ParseNameNS_roundtrip:
  "(CHR ''/'' \<notin> set ns \<and> CHR ''/'' \<notin> set name \<longrightarrow> ParseNameNS (ns @ ''/'' @ name) = Inr (ns, name)) \<and>
   (ParseNameNS input = Inr (ns, name) \<longrightarrow>
      input = ns @ ''/'' @ name \<and> CHR ''/'' \<notin> set ns \<and> CHR ''/'' \<notin> set name)"
proof (intro conjI impI)
  assume "CHR ''/'' \<notin> set ns \<and> CHR ''/'' \<notin> set name"
  then show "ParseNameNS (ns @ ''/'' @ name) = Inr (ns, name)"
    by (simp add: ParseNameNS_def Split_char_append Split_char_None)
next
  assume "ParseNameNS input = Inr (ns, name)"
  then have "length (Split input ''/'') = 2" "Split input ''/'' ! 0 = ns" "Split input ''/'' ! 1 = name"
    by (auto simp: ParseNameNS_def Let_def split: if_splits)
  then have s: "Split input ''/'' = [ns, name]"
    by (cases "Split input ''/''"; cases "tl (Split input ''/'')") (auto simp: numeral_2_eq_2)
  then show "input = ns @ ''/'' @ name" using Join_Split[of input "''/''"] by simp
  show "CHR ''/'' \<notin> set ns" and "CHR ''/'' \<notin> set name"
    using Split_char_parts[of _ input "CHR ''/''"] s by auto
qed

text \<open>The version test dereferences what it could not obtain. When the running version cannot
  be read or parsed, the check of the networking API panics instead of answering false;
  otherwise it is the comparison of the two versions.\<close>

lemma NetworkingIngressAvailable_panics_iff:
  assumes "parse ''v1.14.0'' = Inr v114"
  shows "(\<exists>p. NetworkingIngressAvailable parse at_least serverVersion = Inl p) \<longleftrightarrow>
     (case serverVersion of None \<Rightarrow> True | Some v \<Rightarrow> (\<exists>err. parse v = Inl err))"
  using assms
  by (auto simp: NetworkingIngressAvailable_def bind_res_eq_Inl deref_def split: option.splits sum.splits)

end
