(* ===== verification/SetsMatch.thy ===== *)
theory SetsMatch
  imports Prelude
begin

text \<open>
  The package \<open>internal/sets\<close>: \<open>Compare\<close> decides whether two slices hold the same
  elements up to an equality function, in any order. It is what every \<open>Equal\<close> method of
  the configuration rests on, and so what decides whether the proxy is reconfigured.

  \<open>go_equal\<close> is the interface an equality function has to satisfy; inside it, \<open>Compare\<close> is
  shown to decide the specification \<open>same_elements\<close>, and to be an equality again.
\<close>

section \<open>Model\<close>

text \<open>
  The argument of type \<open>interface{}\<close>, as far as \<open>reflect\<close> tells its kinds apart: a slice,
  an array or something else.
\<close>

datatype 'a reflected = RSlice "'a slice" | RArray "'a list" | ROther

fun isIterable :: "'a reflected \<Rightarrow> bool" where
  "isIterable (RSlice _) = True"
| "isIterable (RArray _) = True"
| "isIterable ROther = False"

text \<open>\<open>reflect.Value.IsNil\<close> panics on a value whose kind cannot be nil, such as an array.\<close>

fun reflect_IsNil :: "'a reflected \<Rightarrow> bool res" where
  "reflect_IsNil (RSlice s) = Inr (s = None)"
| "reflect_IsNil _ = Inl ReflectIsNil"

fun reflect_elems :: "'a reflected \<Rightarrow> 'a list" where
  "reflect_elems (RSlice s) = elems s"
| "reflect_elems (RArray xs) = xs"
| "reflect_elems ROther = []"

text \<open>
  The inner loop: the least index \<open>j\<close> from which an unvisited element of \<open>bs\<close> matches \<open>x\<close>.
\<close>

function find_unvisited ::
  "('a \<Rightarrow> 'b \<Rightarrow> bool) \<Rightarrow> 'a \<Rightarrow> 'b list \<Rightarrow> bool list \<Rightarrow> nat \<Rightarrow> nat option" where
  "find_unvisited eq x bs visited j =
     (if j < length bs then
        (if visited ! j then find_unvisited eq x bs visited (Suc j)
         else if eq x (bs ! j) then Some j
         else find_unvisited eq x bs visited (Suc j))
      else None)"
  by pat_completeness auto
termination
  by (relation "measure (\<lambda>(eq, x, bs, visited, j). length bs - j)") auto

declare find_unvisited.simps [simp del]

text \<open>The outer loop, over the elements of the first slice.\<close>

primrec match_all ::
  "('a \<Rightarrow> 'b \<Rightarrow> bool) \<Rightarrow> 'a list \<Rightarrow> 'b list \<Rightarrow> bool list \<Rightarrow> bool" where
  "match_all eq [] bs visited = True"
| "match_all eq (x # xs) bs visited =
     (case find_unvisited eq x bs visited 0 of
        None \<Rightarrow> False
      | Some j \<Rightarrow> match_all eq xs bs (visited[j := True]))"

definition Compare ::
  "'a reflected \<Rightarrow> 'b reflected \<Rightarrow> ('a \<Rightarrow> 'b \<Rightarrow> bool) \<Rightarrow> bool res" where
  "Compare listA listB eq =
     (if \<not> isIterable listA then Inr False
      else if \<not> isIterable listB then Inr False
      else bind_res (reflect_IsNil listA) (\<lambda>nilA.
           bind_res (reflect_IsNil listB) (\<lambda>nilB.
             if nilA \<and> nilB then Inr True
             else if nilA \<noteq> nilB then Inr False
             else (let a = reflect_elems listA; b = reflect_elems listB in
               if length a \<noteq> length b then Inr False
               else Inr (match_all eq a b (replicate (length b) False))))))"

text \<open>
  The callers pass slices, on which \<open>Compare\<close> never panics; \<open>compare_slices\<close> is their view
  of it.
\<close>

definition compare_slices :: "('a \<Rightarrow> 'b \<Rightarrow> bool) \<Rightarrow> 'a slice \<Rightarrow> 'b slice \<Rightarrow> bool" where
  "compare_slices eq a b =
     (case Compare (RSlice a) (RSlice b) eq of Inr r \<Rightarrow> r | Inl _ \<Rightarrow> False)"

section \<open>Specification\<close>

text \<open>Two lists hold the same elements up to \<open>eq\<close>: a permutation of one matches the other.\<close>

definition same_elements :: "('a \<Rightarrow> 'b \<Rightarrow> bool) \<Rightarrow> 'a list \<Rightarrow> 'b list \<Rightarrow> bool" where
  "same_elements eq xs ys \<longleftrightarrow> (\<exists>zs. mset zs = mset ys \<and> list_all2 eq xs zs)"

section \<open>The greedy matching\<close>

text \<open>The elements of \<open>bs\<close> that are still unvisited, in order.\<close>

definition unvisited :: "'b list \<Rightarrow> bool list \<Rightarrow> 'b list" where
  "unvisited bs visited = map fst (filter (\<lambda>(b, v). \<not> v) (zip bs visited))"

lemma find_unvisited_Some:
  "find_unvisited eq x bs visited j = Some i \<Longrightarrow>
     j \<le> i \<and> i < length bs \<and> \<not> visited ! i \<and> eq x (bs ! i)"
proof (induction eq x bs visited j rule: find_unvisited.induct)
  case (1 eq x bs visited j)
  then show ?case
    by (subst (asm) (3) find_unvisited.simps) (auto split: if_splits)
qed

lemma find_unvisited_None:
  "find_unvisited eq x bs visited j = None \<Longrightarrow> j \<le> i \<Longrightarrow> i < length bs \<Longrightarrow>
     \<not> visited ! i \<Longrightarrow> \<not> eq x (bs ! i)"
proof (induction eq x bs visited j rule: find_unvisited.induct)
  case (1 eq x bs visited j)
  show ?case
  proof (cases "j = i")
    case True
    with "1.prems" show ?thesis by (subst (asm) find_unvisited.simps) (auto split: if_splits)
  next
    case False
    with "1.prems" have "j < length bs" and le: "Suc j \<le> i" by auto
    then have "find_unvisited eq x bs visited (Suc j) = None"
      using "1.prems"(1) by (subst (asm) find_unvisited.simps) (auto split: if_splits)
    with "1.IH" "1.prems" \<open>j < length bs\<close> le show ?thesis
      by (cases "visited ! j"; cases "eq x (bs ! j)") (auto, (subst (asm) find_unvisited.simps, auto)+)
  qed
qed

lemma mset_unvisited_update:
  "length visited = length bs \<Longrightarrow> i < length bs \<Longrightarrow> \<not> visited ! i \<Longrightarrow>
     mset (unvisited bs visited) = add_mset (bs ! i) (mset (unvisited bs (visited[i := True])))"
proof (induction bs arbitrary: visited i)
  case Nil
  then show ?case by simp
next
  case (Cons b bs)
  then obtain v vs where vis: "visited = v # vs" and len: "length vs = length bs"
    by (cases visited) auto
  show ?case
  proof (cases i)
    case 0
    with vis Cons.prems show ?thesis by (simp add: unvisited_def)
  next
    case (Suc k)
    with Cons.prems vis
    have "mset (unvisited bs vs) = add_mset (bs ! k) (mset (unvisited bs (vs[k := True])))"
      by (intro Cons.IH) (auto simp: len)
    with Suc vis show ?thesis by (simp add: unvisited_def)
  qed
qed

lemma unvisited_memE:
  assumes "u \<in> set (unvisited bs visited)" and "length visited = length bs"
  obtains i where "i < length bs" and "\<not> visited ! i" and "bs ! i = u"
  using assms by (auto simp: unvisited_def in_set_conv_nth)

lemma unvisited_fresh: "unvisited bs (replicate (length bs) False) = bs"
  by (induction bs) (simp_all add: unvisited_def)

text \<open>Each matched element takes an unvisited element of its own.\<close>

lemma match_all_sub:
  "length visited = length bs \<Longrightarrow> match_all eq xs bs visited \<Longrightarrow>
     \<exists>zs. mset zs \<subseteq># mset (unvisited bs visited) \<and> list_all2 eq xs zs"
proof (induction xs arbitrary: visited)
  case Nil
  then show ?case by simp
next
  case (Cons x xs)
  from Cons.prems obtain j where j: "find_unvisited eq x bs visited 0 = Some j"
    and rest: "match_all eq xs bs (visited[j := True])" by (auto split: option.splits)
  from Cons.prems(1) Cons.IH[OF _ rest] obtain zs
    where zs: "mset zs \<subseteq># mset (unvisited bs (visited[j := True]))" "list_all2 eq xs zs" by auto
  from find_unvisited_Some[OF j] mset_unvisited_update[of visited bs j] Cons.prems(1) zs
  have "mset (bs ! j # zs) \<subseteq># mset (unvisited bs visited)" "list_all2 eq (x # xs) (bs ! j # zs)"
    by simp_all
  then show ?case by blast
qed

section \<open>Equality functions\<close>

text \<open>What a caller of \<open>Compare\<close> relies on: its equality function is an equivalence.\<close>

locale go_equal =
  fixes eq :: "'a \<Rightarrow> 'a \<Rightarrow> bool"
  assumes eq_refl: "eq x x"
    and eq_sym: "eq x y \<Longrightarrow> eq y x"
    and eq_trans: "eq x y \<Longrightarrow> eq y z \<Longrightarrow> eq x z"
begin

lemma eq_class: "eq x y \<Longrightarrow> eq z x = eq z y"
  using eq_sym eq_trans by blast

text \<open>Equivalent lists have equally many members of every class.\<close>

lemma class_size: "list_all2 eq xs zs \<Longrightarrow>
    size (filter_mset (eq z) (mset xs)) = size (filter_mset (eq z) (mset zs))"
proof (induction rule: list_all2_induct)
  case Nil
  then show ?case by simp
next
  case (Cons x xs y ys)
  with eq_class[of x y z] show ?case by simp
qed

text \<open>The greedy choice never loses: enough members of every class are enough.\<close>

lemma match_all_if_classes:
  "length visited = length bs \<Longrightarrow>
   (\<And>z. size (filter_mset (eq z) (mset xs)) \<le> size (filter_mset (eq z) (mset (unvisited bs visited)))) \<Longrightarrow>
   match_all eq xs bs visited"
proof (induction xs arbitrary: visited)
  case Nil
  then show ?case by simp
next
  case (Cons x xs)
  show ?case
  proof (cases "find_unvisited eq x bs visited 0")
    case None
    have "0 < size (filter_mset (eq x) (mset (unvisited bs visited)))"
      using Cons.prems(2)[of x] eq_refl[of x] by simp
    then have "filter_mset (eq x) (mset (unvisited bs visited)) \<noteq> {#}"
      by (metis nonempty_has_size)
    then obtain u where "u \<in># filter_mset (eq x) (mset (unvisited bs visited))"
      by (rule multiset_nonemptyE)
    then have u: "u \<in> set (unvisited bs visited)" "eq x u" by auto
    then obtain i where "i < length bs" "\<not> visited ! i" "bs ! i = u"
      using unvisited_memE Cons.prems(1) by metis
    with find_unvisited_None[OF None] u(2) show ?thesis by blast
  next
    case (Some j)
    note j = find_unvisited_Some[OF Some]
    have "match_all eq xs bs (visited[j := True])"
    proof (rule Cons.IH)
      show "length (visited[j := True]) = length bs" using Cons.prems(1) by simp
    next
      fix z
      have "mset (unvisited bs visited) = add_mset (bs ! j) (mset (unvisited bs (visited[j := True])))"
        using j Cons.prems(1) by (simp add: mset_unvisited_update)
      with Cons.prems(2)[of z] eq_class[of x "bs ! j" z] j
      show "size (filter_mset (eq z) (mset xs))
          \<le> size (filter_mset (eq z) (mset (unvisited bs (visited[j := True]))))"
        by (simp split: if_splits)
    qed
    with Some show ?thesis by simp
  qed
qed

lemma match_all_iff_same_elements:
  assumes "length xs = length bs"
  shows "match_all eq xs bs (replicate (length bs) False) \<longleftrightarrow> same_elements eq xs bs"
proof
  assume "match_all eq xs bs (replicate (length bs) False)"
  then obtain zs where zs: "mset zs \<subseteq># mset bs" "list_all2 eq xs zs"
    using match_all_sub[of "replicate (length bs) False" bs eq xs] by (auto simp: unvisited_fresh)
  with assms have "size (mset bs) = size (mset zs)" by (auto dest: list_all2_lengthD)
  with zs(1) have "mset zs = mset bs"
    by (metis mset_subset_size order_less_irrefl subset_mset.le_imp_less_or_eq)
  with zs(2) show "same_elements eq xs bs" by (auto simp: same_elements_def)
next
  assume "same_elements eq xs bs"
  then obtain zs where "mset zs = mset bs" "list_all2 eq xs zs" by (auto simp: same_elements_def)
  then show "match_all eq xs bs (replicate (length bs) False)"
    by (intro match_all_if_classes) (simp_all add: unvisited_fresh class_size)
qed

lemma same_elements_iff_classes:
  "same_elements eq xs ys \<longleftrightarrow> length xs = length ys \<and>
     (\<forall>z. size (filter_mset (eq z) (mset xs)) = size (filter_mset (eq z) (mset ys)))"
proof
  assume "same_elements eq xs ys"
  then obtain zs where "mset zs = mset ys" "list_all2 eq xs zs" by (auto simp: same_elements_def)
  then show "length xs = length ys \<and>
     (\<forall>z. size (filter_mset (eq z) (mset xs)) = size (filter_mset (eq z) (mset ys)))"
    using class_size by (metis list_all2_lengthD size_mset)
next
  assume "length xs = length ys \<and>
     (\<forall>z. size (filter_mset (eq z) (mset xs)) = size (filter_mset (eq z) (mset ys)))"
  then show "same_elements eq xs ys"
    using match_all_if_classes[of "replicate (length ys) False" ys xs] match_all_iff_same_elements
    by (simp add: unvisited_fresh)
qed

lemma compare_slices_iff:
  "compare_slices eq a b \<longleftrightarrow> (a = None \<longleftrightarrow> b = None) \<and> same_elements eq (elems a) (elems b)"
proof -
  have "same_elements eq (elems a) (elems b) \<Longrightarrow> length (elems a) = length (elems b)"
    by (simp add: same_elements_iff_classes)
  moreover have "same_elements eq [] []" by (simp add: same_elements_def)
  ultimately show ?thesis
    by (cases a; cases b) (auto simp: compare_slices_def Compare_def Let_def match_all_iff_same_elements)
qed

text \<open>\<open>Compare\<close> is an equality again, and blind to the order of the elements.\<close>

lemma compare_slices_refl: "compare_slices eq a a"
  by (simp add: compare_slices_iff same_elements_iff_classes)

lemma compare_slices_sym: "compare_slices eq a b \<Longrightarrow> compare_slices eq b a"
  by (simp add: compare_slices_iff same_elements_iff_classes)

lemma compare_slices_trans:
  "compare_slices eq a b \<Longrightarrow> compare_slices eq b c \<Longrightarrow> compare_slices eq a c"
  by (simp add: compare_slices_iff same_elements_iff_classes)

lemma compare_slices_perm:
  "(a = None \<longleftrightarrow> b = None) \<Longrightarrow> mset (elems a) = mset (elems b) \<Longrightarrow> compare_slices eq a b"
  by (simp add: compare_slices_iff same_elements_iff_classes) (metis size_mset)

end


section \<open>Properties\<close>

text \<open>C18: \<open>Compare\<close> decides equality of slices up to order. For an equality function that is an
  equivalence, it returns \<open>true\<close> exactly when both slices are nil or both are not, and some
  permutation of the second matches the first element by element; the greedy choice of the
  inner loop never misses such a permutation.\<close>

theorem Compare_decides_same_elements:
  assumes "go_equal eq"
  shows "Compare (RSlice a) (RSlice b) eq =
     Inr ((a = None \<longleftrightarrow> b = None) \<and> same_elements eq (elems a) (elems b))"
proof -
  have "Compare (RSlice a) (RSlice b) eq = Inr (compare_slices eq a b)"
    by (simp add: compare_slices_def Compare_def Let_def)
  then show ?thesis by (simp add: go_equal.compare_slices_iff[OF assms])
qed

lemma Compare_decides_same_elements_witness:
  "Compare (RSlice (Some [1, 2, 4 :: int])) (RSlice (Some [5, 1, 7])) (\<lambda>x y. x mod 3 = y mod 3) =
     Inr (same_elements (\<lambda>x y. x mod 3 = y mod 3) [1, 2, 4 :: int] [5, 1, 7 :: int])"
proof -
  have "go_equal (\<lambda>x y :: int. x mod 3 = y mod 3)" by unfold_locales simp_all
  from Compare_decides_same_elements[OF this, of "Some [1, 2, 4]" "Some [5, 1, 7]"]
  show ?thesis by simp
qed

text \<open>\<open>Compare\<close> panics exactly on arrays. It accepts arrays as iterable, but asks them
  whether they are nil, on which \<open>reflect\<close> panics; on slices and on other values it returns.\<close>

lemma Compare_panics_iff_array:
  "(\<exists>p. Compare a b eq = Inl p) \<longleftrightarrow>
     isIterable a \<and> isIterable b \<and> ((\<exists>xs. a = RArray xs) \<or> (\<exists>ys. b = RArray ys))"
  by (cases a; cases b) (auto simp: Compare_def Let_def)

end
