(* ===== verification/IngressTypes.thy ===== *)
theory IngressTypes
  imports K8sTypes SetsMatch
begin

text \<open>
  The configuration the controller computes and the proxy serves from
  (\<open>internal/ingress/types.go\<close>, \<open>internal/ingress/controller/config\<close>) and its \<open>Equal\<close>
  methods, which decide whether the proxy is reconfigured.

  A pointer is an option. The methods first compare the two pointers; two equal pointers
  lead to equal contents, for which the remaining tests answer \<open>true\<close> as well (the \<open>Equal\<close>
  methods are reflexive, by the interpretations below), so the model compares contents.
\<close>

section \<open>Model\<close>

record endpoint =
  Address :: string
  Port :: string
  Target :: "object_reference option"

record backend =
  be_Name :: string
  be_Service :: "service option"
  be_Endpoints :: "endpoint slice"

record configuration_backend =
  cb_Backend :: "backend option"
  cb_Hostname :: string

record configuration =
  Services :: "configuration_backend option slice"
  ControllerPodsCount :: int

record listen_ports =
  lp_HTTP :: int
  lp_Health :: int
  lp_Default :: int

definition Target_Equal :: "object_reference option \<Rightarrow> object_reference option \<Rightarrow> bool" where
  "Target_Equal t1 t2 =
     (case (t1, t2) of
        (None, None) \<Rightarrow> True
      | (Some r1, Some r2) \<Rightarrow>
          if or_uid r1 \<noteq> or_uid r2 then False
          else if or_resourceVersion r1 \<noteq> or_resourceVersion r2 then False
          else True
      | _ \<Rightarrow> False)"

definition Endpoint_Equal :: "endpoint option \<Rightarrow> endpoint option \<Rightarrow> bool" where
  "Endpoint_Equal p1 p2 =
     (case (p1, p2) of
        (None, None) \<Rightarrow> True
      | (Some e1, Some e2) \<Rightarrow>
          if Address e1 \<noteq> Address e2 then False
          else if Port e1 \<noteq> Port e2 then False
          else Target_Equal (Target e1) (Target e2)
      | _ \<Rightarrow> False)"

definition compareEndpointsFunc :: "endpoint \<Rightarrow> endpoint \<Rightarrow> bool" where
  "compareEndpointsFunc e1 e2 = Endpoint_Equal (Some e1) (Some e2)"

definition compareEndpoints :: "endpoint slice \<Rightarrow> endpoint slice \<Rightarrow> bool" where
  "compareEndpoints a b = compare_slices compareEndpointsFunc a b"

definition Service_same :: "service option \<Rightarrow> service option \<Rightarrow> bool" where
  "Service_same s1 s2 =
     (case (s1, s2) of
        (None, None) \<Rightarrow> True
      | (Some a, Some b) \<Rightarrow>
          if om_namespace (svc_meta a) \<noteq> om_namespace (svc_meta b) then False
          else if om_name (svc_meta a) \<noteq> om_name (svc_meta b) then False
          else True
      | _ \<Rightarrow> False)"

definition Backend_Equal :: "backend option \<Rightarrow> backend option \<Rightarrow> bool" where
  "Backend_Equal p1 p2 =
     (case (p1, p2) of
        (None, None) \<Rightarrow> True
      | (Some b1, Some b2) \<Rightarrow>
          if be_Name b1 \<noteq> be_Name b2 then False
          else if \<not> Service_same (be_Service b1) (be_Service b2) then False
          else compareEndpoints (be_Endpoints b1) (be_Endpoints b2)
      | _ \<Rightarrow> False)"

definition ConfigurationBackend_Equal ::
  "configuration_backend option \<Rightarrow> configuration_backend option \<Rightarrow> bool" where
  "ConfigurationBackend_Equal p1 p2 =
     (case (p1, p2) of
        (None, None) \<Rightarrow> True
      | (Some s1, Some s2) \<Rightarrow>
          if cb_Hostname s1 \<noteq> cb_Hostname s2 then False
          else if \<not> Backend_Equal (cb_Backend s1) (cb_Backend s2) then False
          else True
      | _ \<Rightarrow> False)"

definition compareServices ::
  "configuration_backend option slice \<Rightarrow> configuration_backend option slice \<Rightarrow> bool" where
  "compareServices a b = compare_slices ConfigurationBackend_Equal a b"

definition Configuration_Equal :: "configuration option \<Rightarrow> configuration option \<Rightarrow> bool" where
  "Configuration_Equal p1 p2 =
     (case (p1, p2) of
        (None, None) \<Rightarrow> True
      | (Some c1, Some c2) \<Rightarrow> compareServices (Services c1) (Services c2)
      | _ \<Rightarrow> False)"

text \<open>\<open>new(Configuration)\<close>: the zero value.\<close>

definition new_configuration :: configuration where
  "new_configuration = \<lparr>Services = None, ControllerPodsCount = 0\<rparr>"

section \<open>The Equal methods are equalities\<close>

lemma Target_Equal_iff [equal_simps]:
  "Target_Equal t1 t2 \<longleftrightarrow>
     map_option (\<lambda>r. (or_uid r, or_resourceVersion r)) t1 =
     map_option (\<lambda>r. (or_uid r, or_resourceVersion r)) t2"
  by (auto simp: Target_Equal_def split: option.splits)

lemma Service_same_iff [equal_simps]:
  "Service_same s1 s2 \<longleftrightarrow>
     map_option (\<lambda>s. (om_namespace (svc_meta s), om_name (svc_meta s))) s1 =
     map_option (\<lambda>s. (om_namespace (svc_meta s), om_name (svc_meta s))) s2"
  by (auto simp: Service_same_def split: option.splits)

lemma compareEndpointsFunc_iff [equal_simps]:
  "compareEndpointsFunc e1 e2 \<longleftrightarrow>
     Address e1 = Address e2 \<and> Port e1 = Port e2 \<and> Target_Equal (Target e1) (Target e2)"
  by (simp add: compareEndpointsFunc_def Endpoint_Equal_def)

interpretation ep_eq: go_equal compareEndpointsFunc
  by unfold_locales (auto simp: equal_simps)

lemma Backend_Equal_Some [equal_simps]:
  "Backend_Equal (Some b1) (Some b2) \<longleftrightarrow>
     be_Name b1 = be_Name b2 \<and> Service_same (be_Service b1) (be_Service b2) \<and>
     compareEndpoints (be_Endpoints b1) (be_Endpoints b2)"
  by (simp add: Backend_Equal_def)

lemma Backend_Equal_None [simp]:
  "Backend_Equal None q \<longleftrightarrow> q = None" "Backend_Equal p None \<longleftrightarrow> p = None"
  by (auto simp: Backend_Equal_def split: option.splits)

lemmas compareEndpoints_equality =
  ep_eq.compare_slices_refl ep_eq.compare_slices_sym ep_eq.compare_slices_trans

interpretation be_eq: go_equal Backend_Equal
proof unfold_locales
  fix x show "Backend_Equal x x"
    by (cases x) (auto simp: equal_simps compareEndpoints_def compareEndpoints_equality(1))
next
  fix x y assume "Backend_Equal x y"
  then show "Backend_Equal y x"
    by (cases x; cases y)
       (auto simp: equal_simps compareEndpoints_def intro: compareEndpoints_equality(2))
next
  fix x y z assume "Backend_Equal x y" "Backend_Equal y z"
  then show "Backend_Equal x z"
    by (cases x; cases y; cases z)
       (auto simp: equal_simps compareEndpoints_def intro: compareEndpoints_equality(3))
qed

lemma ConfigurationBackend_Equal_iff [equal_simps]:
  "ConfigurationBackend_Equal (Some s1) (Some s2) \<longleftrightarrow>
     cb_Hostname s1 = cb_Hostname s2 \<and> Backend_Equal (cb_Backend s1) (cb_Backend s2)"
  "ConfigurationBackend_Equal None q \<longleftrightarrow> q = None"
  "ConfigurationBackend_Equal p None \<longleftrightarrow> p = None"
  by (auto simp: ConfigurationBackend_Equal_def split: option.splits)

interpretation cb_eq: go_equal ConfigurationBackend_Equal
proof unfold_locales
  fix x show "ConfigurationBackend_Equal x x"
    by (cases x) (simp_all add: equal_simps be_eq.eq_refl)
next
  fix x y assume "ConfigurationBackend_Equal x y"
  then show "ConfigurationBackend_Equal y x"
    by (cases x; cases y) (auto simp: equal_simps intro: be_eq.eq_sym)
next
  fix x y z assume "ConfigurationBackend_Equal x y" "ConfigurationBackend_Equal y z"
  then show "ConfigurationBackend_Equal x z"
    by (cases x; cases y; cases z) (auto simp: equal_simps intro: be_eq.eq_trans)
qed

lemma Configuration_Equal_iff [equal_simps]:
  "Configuration_Equal (Some c1) (Some c2) \<longleftrightarrow> compareServices (Services c1) (Services c2)"
  "Configuration_Equal None q \<longleftrightarrow> q = None"
  "Configuration_Equal p None \<longleftrightarrow> p = None"
  by (auto simp: Configuration_Equal_def split: option.splits)

interpretation cfg_eq: go_equal Configuration_Equal
proof unfold_locales
  fix x show "Configuration_Equal x x"
    by (cases x) (simp_all add: equal_simps compareServices_def cb_eq.compare_slices_refl)
next
  fix x y assume "Configuration_Equal x y"
  then show "Configuration_Equal y x"
    by (cases x; cases y)
       (auto simp: equal_simps compareServices_def intro: cb_eq.compare_slices_sym)
next
  fix x y z assume "Configuration_Equal x y" "Configuration_Equal y z"
  then show "Configuration_Equal x z"
    by (cases x; cases y; cases z)
       (auto simp: equal_simps compareServices_def intro: cb_eq.compare_slices_trans)
qed


section \<open>Properties\<close>

text \<open>C34: \<open>Configuration.Equal\<close> is an equivalence relation on configurations, nil included.\<close>

theorem Configuration_Equal_equivalence: "equivp Configuration_Equal"
  by (intro equivpI reflpI sympI transpI) (blast intro: cfg_eq.eq_refl cfg_eq.eq_sym cfg_eq.eq_trans)+

end
