(* ===== verification/SessionStore.thy ===== *)
theory SessionStore
  imports Prelude
begin

text \<open>
  The contract between the HTTP handler, the configuration update and the status syncer on
  one side and the session table in redis on the other: \<open>add\<close> records the endpoint of a
  session, \<open>get\<close> reads it (\<open>''''\<close> when there is none), \<open>clean\<close> drops the sessions whose
  endpoint is not in a list. \<open>tok s k\<close> says that \<open>k\<close> is a session token the store of state
  \<open>s\<close> keeps apart from the others.
\<close>

section \<open>The abstract session table\<close>

datatype session_op =
    AddSession string string
  | UseSession string
  | CleanSessions "string list"

type_synonym session_table = "string \<Rightarrow> string"

fun session_spec :: "session_op \<Rightarrow> session_table \<Rightarrow> session_table" where
  "session_spec (AddSession k e) f = f(k := e)"
| "session_spec (UseSession k) f = f"
| "session_spec (CleanSessions eps) f = (\<lambda>k. if f k \<in> set eps then f k else '''')"

fun op_tokens :: "session_op \<Rightarrow> string set" where
  "op_tokens (AddSession k e) = {k}"
| "op_tokens (UseSession k) = {k}"
| "op_tokens (CleanSessions eps) = {}"

fun session_step ::
  "(string \<Rightarrow> string \<Rightarrow> 's \<Rightarrow> 's) \<Rightarrow> (string \<Rightarrow> 's \<Rightarrow> ('e + string) \<times> 's) \<Rightarrow>
   (string list \<Rightarrow> 's \<Rightarrow> 's) \<Rightarrow> session_op \<Rightarrow> 's \<Rightarrow> 's" where
  "session_step add get clean (AddSession k e) s = add k e s"
| "session_step add get clean (UseSession k) s = snd (get k s)"
| "session_step add get clean (CleanSessions eps) s = clean eps s"

text \<open>Tables that agree on the tokens in use go on agreeing.\<close>

lemma fold_session_spec_agree:
  "(\<And>i. T i \<Longrightarrow> f i = g i) \<Longrightarrow> T k \<Longrightarrow>
     fold session_spec ops f k = fold session_spec ops g k"
proof (induction ops arbitrary: f g)
  case Nil
  then show ?case by simp
next
  case (Cons q ops)
  have "session_spec q f i = session_spec q g i" if "T i" for i
    using Cons.prems(1)[OF that] by (cases q) simp_all
  then have "fold session_spec ops (session_spec q f) k = fold session_spec ops (session_spec q g) k"
    using Cons.prems(2) by (rule Cons.IH)
  then show ?case by simp
qed

section \<open>The contract\<close>

locale session_store =
  fixes ok :: "'s \<Rightarrow> bool"
    and tok :: "'s \<Rightarrow> string \<Rightarrow> bool"
    and add :: "string \<Rightarrow> string \<Rightarrow> 's \<Rightarrow> 's"
    and get :: "string \<Rightarrow> 's \<Rightarrow> ('e + string) \<times> 's"
    and clean :: "string list \<Rightarrow> 's \<Rightarrow> 's"
  assumes ok_add: "ok s \<Longrightarrow> ok (add k e s)"
    and ok_get: "ok s \<Longrightarrow> ok (snd (get k s))"
    and ok_clean: "ok s \<Longrightarrow> ok (clean eps s)"
    and tok_add: "tok (add k e s) = tok s"
    and tok_get: "tok (snd (get k s)) = tok s"
    and tok_clean: "tok (clean eps s) = tok s"
    and get_total: "ok s \<Longrightarrow> \<exists>e. fst (get k s) = Inr e"
    and get_get: "ok s \<Longrightarrow> fst (get k (snd (get j s))) = fst (get k s)"
    and get_add_same: "ok s \<Longrightarrow> fst (get k (add k e s)) = Inr e"
    and get_add_other: "ok s \<Longrightarrow> tok s k \<Longrightarrow> tok s j \<Longrightarrow> j \<noteq> k \<Longrightarrow>
      fst (get j (add k e s)) = fst (get j s)"
    and get_clean: "ok s \<Longrightarrow> tok s k \<Longrightarrow> fst (get k s) = Inr e \<Longrightarrow>
      fst (get k (clean eps s)) = Inr (if e \<in> set eps then e else '''')"
begin

text \<open>The table a state stands for, as \<open>get\<close> observes it.\<close>

definition table :: "'s \<Rightarrow> session_table" where
  "table s k = (case fst (get k s) of Inr e \<Rightarrow> e | Inl _ \<Rightarrow> '''')"

lemma get_table: "ok s \<Longrightarrow> fst (get k s) = Inr (table s k)"
  using get_total[of s k] by (auto simp: table_def)

lemma step_ok: "ok s \<Longrightarrow> ok (session_step add get clean p s)"
  by (cases p) (simp_all add: ok_add ok_get ok_clean)

lemma step_tok: "tok (session_step add get clean p s) = tok s"
  by (cases p) (simp_all add: tok_add tok_get tok_clean)

text \<open>One operation refines one step of the abstract table, on every token.\<close>

lemma step_table:
  assumes "ok s" and "\<forall>j \<in> op_tokens p. tok s j" and "tok s k"
  shows "table (session_step add get clean p s) k = session_spec p (table s) k"
proof (cases p)
  case (AddSession j e)
  with assms get_add_other[of s j k e] get_add_same[of s j e] show ?thesis
    by (simp add: table_def)
next
  case (UseSession j)
  with assms get_get[of s k j] show ?thesis by (simp add: table_def)
next
  case (CleanSessions eps)
  from get_clean[OF assms(1,3) get_table[OF assms(1)], of eps] CleanSessions
  show ?thesis by (simp add: table_def)
qed

text \<open>So does any sequence of operations, whichever replica issues them.\<close>

lemma run_table:
  "ok s \<Longrightarrow> \<forall>p \<in> set ops. \<forall>j \<in> op_tokens p. tok s j \<Longrightarrow> tok s k \<Longrightarrow>
     fst (get k (fold (session_step add get clean) ops s)) = Inr (fold session_spec ops (table s) k)"
proof (induction ops arbitrary: s)
  case Nil
  then show ?case by (simp add: get_table)
next
  case (Cons p ops)
  let ?t = "session_step add get clean p s"
  have "fst (get k (fold (session_step add get clean) ops ?t)) = Inr (fold session_spec ops (table ?t) k)"
    using Cons.prems by (intro Cons.IH) (auto simp: step_ok step_tok)
  moreover have "fold session_spec ops (table ?t) k = fold session_spec ops (session_spec p (table s)) k"
  proof -
    have "session_spec p (table s) i = table ?t i" if "tok s i" for i
      using Cons.prems step_table[of s p i] that by simp
    then show ?thesis
      using Cons.prems(2,3) by (intro fold_session_spec_agree[where T = "tok s"]) auto
  qed
  ultimately show ?case by simp
qed

text \<open>A session sticks: once added, it stays until its endpoint is cleaned away.\<close>

lemma sticky:
  assumes "ok s" and "tok s k" and "e \<noteq> ''''"
    and "\<forall>p \<in> set ops. \<forall>j \<in> op_tokens p. tok s j"
    and "\<forall>p \<in> set ops. (\<forall>e'. p = AddSession k e' \<longrightarrow> e' = e) \<and> (\<forall>eps. p = CleanSessions eps \<longrightarrow> e \<in> set eps)"
  shows "fst (get k (fold (session_step add get clean) ops (add k e s))) = Inr e"
proof -
  have "fold session_spec ops f k = e" if "f k = e" for f
    using that assms(5)
  proof (induction ops arbitrary: f)
    case Nil
    then show ?case by simp
  next
    case (Cons p ops)
    have "session_spec p f k = e" using Cons.prems by (cases p) auto
    with Cons show ?case by simp
  qed
  moreover have "table (add k e s) k = e" using assms(1) by (simp add: table_def get_add_same)
  moreover have "fst (get k (fold (session_step add get clean) ops (add k e s)))
      = Inr (fold session_spec ops (table (add k e s)) k)"
    using assms by (intro run_table) (auto simp: ok_add tok_add)
  ultimately show ?thesis by simp
qed

end

end
