(* ===== verification/RedisManager.thy ===== *)
theory RedisManager
  imports GoStrings SessionStore
begin

text \<open>
  The package \<open>internal/redis\<close>: the manager that publishes which endpoint serves which
  session, so that all replicas of the controller route a session alike.

  The go-redis client and the server behind it are not part of the repository: they are the
  record \<open>redis_client\<close> of the commands the manager sends, on a state of the world
  \<open>'w\<close> that any command may change. \<open>redis_laws\<close> states their documented behaviour while the
  server answers: \<open>view w\<close> maps each live key to its value and its time to live.

  \<open>session_store\<close> is the contract the HTTP handler and the status syncer rely on. It is
  interpreted on the manager, for every client that obeys the laws; a trace of operations
  then refines the abstract session table \<open>session_spec\<close>.
\<close>

section \<open>The client, a parameter\<close>

datatype redis_error = RedisNil | RedisErr string

record 'w redis_client =
  rc_Get :: "string \<Rightarrow> 'w \<Rightarrow> (redis_error + string) \<times> 'w"
  rc_Set :: "string \<Rightarrow> string \<Rightarrow> int \<Rightarrow> 'w \<Rightarrow> redis_error option \<times> 'w"
  rc_Del :: "string \<Rightarrow> 'w \<Rightarrow> redis_error option \<times> 'w"
  rc_Expire :: "string \<Rightarrow> int \<Rightarrow> 'w \<Rightarrow> redis_error option \<times> 'w"
  rc_Keys :: "string \<Rightarrow> 'w \<Rightarrow> (redis_error + string list) \<times> 'w"
  rc_Ping :: "'w \<Rightarrow> redis_error option \<times> 'w"
  rc_Close :: "'w \<Rightarrow> 'w"

record failover_options =
  fo_MasterName :: string
  fo_SentinelAddrs :: "string list"
  fo_MaxRetries :: int
  fo_MinRetryBackoff :: int
  fo_MaxRetryBackoff :: int

section \<open>Model\<close>

text \<open>The fields of \<open>Manager\<close> before \<open>Start\<close>, and with the client \<open>Start\<close> creates.\<close>

record manager_config =
  MasterName :: string
  SentinelAddrs :: "string list"
  RedisMaxRetries :: int
  RedisMinRetryBackoff :: int
  RedisMaxRetryBackoff :: int
  RedisNamespacePrefix :: string

record 'w manager = manager_config +
  client :: "'w redis_client"

definition namespaceSeparator :: string where
  "namespaceSeparator = '':''"

text \<open>\<open>time.Hour\<close>, in nanoseconds.\<close>

definition time_Hour :: int where
  "time_Hour = 3600 * 10 ^ 9"

definition createNamespaced :: "('w, 'z) manager_scheme \<Rightarrow> string" where
  "createNamespaced r = RedisNamespacePrefix r @ namespaceSeparator"

definition createNamespacedKey :: "('w, 'z) manager_scheme \<Rightarrow> string \<Rightarrow> string" where
  "createNamespacedKey r key =
     (if Contains key (createNamespaced r) then key else createNamespaced r @ key)"

primrec contains :: "string list \<Rightarrow> string \<Rightarrow> bool" where
  "contains [] x = False"
| "contains (n # a) x = (if x = n then True else contains a x)"

definition Start ::
  "(failover_options \<Rightarrow> 'w redis_client) \<Rightarrow> manager_config \<Rightarrow> 'w
     \<Rightarrow> redis_error option \<times> 'w manager \<times> 'w" where
  "Start newFailoverClient r w =
     (let cl = newFailoverClient \<lparr>
            fo_MasterName = MasterName r, fo_SentinelAddrs = SentinelAddrs r,
            fo_MaxRetries = RedisMaxRetries r, fo_MinRetryBackoff = RedisMinRetryBackoff r,
            fo_MaxRetryBackoff = RedisMaxRetryBackoff r\<rparr>;
          (err, w') = rc_Ping cl w
      in (err, manager_config.extend r (manager.fields cl), w'))"

definition Stop :: "'w manager \<Rightarrow> 'w \<Rightarrow> 'w" where
  "Stop r w = rc_Close (client r) w"

text \<open>The error of the command is logged and dropped.\<close>

definition AddCookie :: "'w manager \<Rightarrow> string \<Rightarrow> string \<Rightarrow> 'w \<Rightarrow> 'w" where
  "AddCookie r jsession endpoint w =
     snd (rc_Set (client r) (createNamespacedKey r jsession) endpoint time_Hour w)"

definition GetEndpoint ::
  "'w manager \<Rightarrow> string \<Rightarrow> bool \<Rightarrow> 'w \<Rightarrow> (redis_error + string) \<times> 'w" where
  "GetEndpoint r jsession updateExpire w =
     (case rc_Get (client r) (createNamespacedKey r jsession) w of
        (Inl e, w1) \<Rightarrow> if e = RedisNil then (Inr '''', w1) else (Inl e, w1)
      | (Inr val, w1) \<Rightarrow>
          if updateExpire
          then (Inr val, snd (rc_Expire (client r) (createNamespacedKey r jsession) time_Hour w1))
          else (Inr val, w1))"

text \<open>The loop of \<open>getAllEntries\<close> over the keys; a key whose value cannot be read is skipped.\<close>

primrec collect_entries ::
  "'w manager \<Rightarrow> string list \<Rightarrow> (string, string) go_map \<Rightarrow> 'w \<Rightarrow> (string, string) go_map \<times> 'w" where
  "collect_entries r [] entryMap w = (entryMap, w)"
| "collect_entries r (cookie # keys) entryMap w =
     (case GetEndpoint r cookie False w of
        (Inl _, w1) \<Rightarrow> collect_entries r keys entryMap w1
      | (Inr endpoint, w1) \<Rightarrow> collect_entries r keys (AList.update cookie endpoint entryMap) w1)"

definition getAllEntries ::
  "'w manager \<Rightarrow> 'w \<Rightarrow> (redis_error + (string, string) go_map) \<times> 'w" where
  "getAllEntries r w =
     (case rc_Keys (client r) (createNamespacedKey r ''*'') w of
        (Inl e, w1) \<Rightarrow> if e = RedisNil then (Inr [], w1) else (Inl e, w1)
      | (Inr keys, w1) \<Rightarrow> (case collect_entries r keys [] w1 of (m, w2) \<Rightarrow> (Inr m, w2)))"

text \<open>\<open>ord\<close> is the order in which Go ranges over the map of entries.\<close>

primrec delete_unless ::
  "'w manager \<Rightarrow> (string \<Rightarrow> bool) \<Rightarrow> (string \<times> string) list \<Rightarrow> 'w \<Rightarrow> 'w" where
  "delete_unless r keep [] w = w"
| "delete_unless r keep (kv # entries) w =
     (if keep (snd kv) then delete_unless r keep entries w
      else delete_unless r keep entries (snd (rc_Del (client r) (fst kv) w)))"

definition Clean ::
  "((string \<times> string) list \<Rightarrow> (string \<times> string) list) \<Rightarrow> 'w manager \<Rightarrow> string list \<Rightarrow> 'w
     \<Rightarrow> redis_error option \<times> 'w" where
  "Clean ord r endpoints w =
     (case getAllEntries r w of
        (Inl e, w1) \<Rightarrow> (Some e, w1)
      | (Inr entries, w1) \<Rightarrow> (None, delete_unless r (contains endpoints) (ord entries) w1))"

definition RemoveEndpoint ::
  "((string \<times> string) list \<Rightarrow> (string \<times> string) list) \<Rightarrow> 'w manager \<Rightarrow> string \<Rightarrow> 'w \<Rightarrow> 'w" where
  "RemoveEndpoint ord r endpoint w =
     (case getAllEntries r w of
        (Inl _, w1) \<Rightarrow> w1
      | (Inr entries, w1) \<Rightarrow> delete_unless r (\<lambda>upstream. endpoint \<noteq> upstream) (ord entries) w1)"

section \<open>Documented behaviour of the client\<close>

text \<open>A prefix that is literal in a pattern of \<open>KEYS\<close>.\<close>

definition glob_free :: "string \<Rightarrow> bool" where
  "glob_free p \<longleftrightarrow> (\<forall>c \<in> set p. c \<notin> {CHR ''*'', CHR ''?'', CHR ''['', CHR '']'', CHR 0x5C})"

definition redis_laws ::
  "'w redis_client \<Rightarrow> ('w \<Rightarrow> string \<Rightarrow> (string \<times> int) option) \<Rightarrow> bool" where
  "redis_laws c view \<longleftrightarrow>
     (\<forall>k w. fst (rc_Get c k w) = (case view w k of None \<Rightarrow> Inl RedisNil | Some (v, _) \<Rightarrow> Inr v)
          \<and> view (snd (rc_Get c k w)) = view w) \<and>
     (\<forall>k v t w. view (snd (rc_Set c k v t w)) = (view w)(k \<mapsto> (v, t))) \<and>
     (\<forall>k w. view (snd (rc_Del c k w)) = (view w)(k := None)) \<and>
     (\<forall>k t w. view (snd (rc_Expire c k t w)) =
          (case view w k of None \<Rightarrow> view w | Some (v, _) \<Rightarrow> (view w)(k \<mapsto> (v, t)))) \<and>
     (\<forall>p w. glob_free p \<longrightarrow>
          (\<exists>ks. fst (rc_Keys c (p @ ''*'') w) = Inr ks \<and> set ks = {k \<in> dom (view w). prefix p k})
          \<and> view (snd (rc_Keys c (p @ ''*'') w)) = view w)"

text \<open>An instance: a server that keeps its keys in an association list.\<close>

type_synonym redis_table = "(string, string \<times> int) go_map"

definition example_redis :: "redis_table redis_client" where
  "example_redis = \<lparr>
     rc_Get = (\<lambda>k w. (case map_of w k of None \<Rightarrow> Inl RedisNil | Some (v, _) \<Rightarrow> Inr v, w)),
     rc_Set = (\<lambda>k v t w. (None, AList.update k (v, t) w)),
     rc_Del = (\<lambda>k w. (None, AList.delete k w)),
     rc_Expire = (\<lambda>k t w. (None,
        case map_of w k of None \<Rightarrow> w | Some (v, _) \<Rightarrow> AList.update k (v, t) w)),
     rc_Keys = (\<lambda>pat w. (Inr (filter (prefix (butlast pat)) (map fst w)), w)),
     rc_Ping = (\<lambda>w. (None, w)),
     rc_Close = (\<lambda>w. w) \<rparr>"

definition example_manager :: "redis_table manager" where
  "example_manager = \<lparr>
     MasterName = ''mymaster'', SentinelAddrs = [''redis-redis-ha.redis:26379''],
     RedisMaxRetries = 3, RedisMinRetryBackoff = 5 * 10 ^ 9, RedisMaxRetryBackoff = 10 ^ 10,
     RedisNamespacePrefix = ''WLS-ING'', client = example_redis \<rparr>"

lemma example_redis_laws: "redis_laws example_redis map_of"
  unfolding redis_laws_def
  by (auto simp: example_redis_def update_conv' delete_conv' dom_map_of_conv_image_fst
      split: option.splits)

section \<open>Keys\<close>

lemma createNamespacedKey_idem:
  "createNamespacedKey r (createNamespacedKey r key) = createNamespacedKey r key"
  by (simp add: createNamespacedKey_def)

text \<open>A token that does not contain the namespace itself; its key has the namespace as prefix.\<close>

definition plain_token :: "('w, 'z) manager_scheme \<Rightarrow> string \<Rightarrow> bool" where
  "plain_token r key \<longleftrightarrow> \<not> Contains key (createNamespaced r)"

lemma plain_token_key: "plain_token r key \<Longrightarrow> createNamespacedKey r key = createNamespaced r @ key"
  by (simp add: plain_token_def createNamespacedKey_def)

lemma plain_token_key_inject:
  "plain_token r j \<Longrightarrow> plain_token r k \<Longrightarrow>
     createNamespacedKey r j = createNamespacedKey r k \<longleftrightarrow> j = k"
  by (simp add: plain_token_key)

lemma createNamespacedKey_prefixed:
  "prefix (createNamespaced r) k \<Longrightarrow> createNamespacedKey r k = k"
  by (auto simp: createNamespacedKey_def elim: prefixE)

lemma createNamespacedKey_star:
  "createNamespaced r = p \<Longrightarrow> createNamespacedKey r ''*'' = (if sublist p ''*'' then ''*'' else p @ ''*'')"
  by (simp add: createNamespacedKey_def Contains_iff_sublist)

lemma contains_iff: "contains a x \<longleftrightarrow> x \<in> set a"
  by (induction a) auto

section \<open>The commands on the view\<close>

lemma redis_lawsD:
  assumes "redis_laws c view"
  shows law_Get: "fst (rc_Get c k w) = (case view w k of None \<Rightarrow> Inl RedisNil | Some (v, _) \<Rightarrow> Inr v)"
    and law_Get_view: "view (snd (rc_Get c k w)) = view w"
    and law_Set: "view (snd (rc_Set c k v t w)) = (view w)(k \<mapsto> (v, t))"
    and law_Del: "view (snd (rc_Del c k w)) = (view w)(k := None)"
    and law_Expire: "view (snd (rc_Expire c k t w)) =
          (case view w k of None \<Rightarrow> view w | Some (v, _) \<Rightarrow> (view w)(k \<mapsto> (v, t)))"
    and law_Keys: "glob_free p \<Longrightarrow> \<exists>ks. fst (rc_Keys c (p @ ''*'') w) = Inr ks \<and>
          set ks = {k \<in> dom (view w). prefix p k}"
    and law_Keys_view: "glob_free p \<Longrightarrow> view (snd (rc_Keys c (p @ ''*'') w)) = view w"
  using assms unfolding redis_laws_def by blast+

text \<open>The value part of the view.\<close>

definition redis_value :: "(string \<times> int) option \<Rightarrow> string" where
  "redis_value x = (case x of None \<Rightarrow> '''' | Some (v, _) \<Rightarrow> v)"

lemma AddCookie_view:
  assumes "redis_laws (client r) view"
  shows "view (AddCookie r k e w) = (view w)(createNamespacedKey r k \<mapsto> (e, time_Hour))"
  by (simp add: AddCookie_def law_Set[OF assms])

lemma GetEndpoint_result:
  assumes "redis_laws (client r) view"
  shows "fst (GetEndpoint r k u w) = Inr (redis_value (view w (createNamespacedKey r k)))"
  using law_Get[OF assms, of "createNamespacedKey r k" w]
  by (auto simp: GetEndpoint_def redis_value_def split: prod.splits sum.splits option.splits)

lemma GetEndpoint_view:
  assumes "redis_laws (client r) view"
  shows "view (snd (GetEndpoint r k u w)) =
     (case view w (createNamespacedKey r k) of
        None \<Rightarrow> view w
      | Some (v, t) \<Rightarrow> if u then (view w)(createNamespacedKey r k \<mapsto> (v, time_Hour)) else view w)"
  using law_Get[OF assms, of "createNamespacedKey r k" w]
    law_Get_view[OF assms, of "createNamespacedKey r k" w]
    law_Expire[OF assms, of "createNamespacedKey r k" time_Hour]
  by (auto simp: GetEndpoint_def split: prod.splits sum.splits option.splits)

lemma redis_value_GetEndpoint:
  assumes "redis_laws (client r) view"
  shows "redis_value (view (snd (GetEndpoint r k u w)) x) = redis_value (view w x)"
  by (auto simp: GetEndpoint_view[OF assms] redis_value_def split: option.splits)

text \<open>Collecting the entries of namespaced keys reads the view and changes nothing.\<close>

lemma collect_entries_result:
  assumes "redis_laws (client r) view" and "\<forall>k \<in> set keys. prefix (createNamespaced r) k"
  shows "case collect_entries r keys m w of (m', w') \<Rightarrow> view w' = view w \<and>
     map_of m' = (\<lambda>k. if k \<in> set keys then Some (redis_value (view w k)) else map_of m k)"
  using assms(2)
proof (induction keys arbitrary: m w)
  case Nil
  then show ?case by simp
next
  case (Cons k keys)
  then have k: "createNamespacedKey r k = k" by (simp add: createNamespacedKey_prefixed)
  obtain w1 where g: "GetEndpoint r k False w = (Inr (redis_value (view w k)), w1)"
    using GetEndpoint_result[OF assms(1), of k False w] k
    by (cases "GetEndpoint r k False w") auto
  have w1: "view w1 = view w"
    using GetEndpoint_view[OF assms(1), of k False w] g by (auto split: option.splits)
  from Cons.IH[where m = "AList.update k (redis_value (view w k)) m" and w = w1] Cons.prems g w1
  show ?case by (auto simp: update_conv' fun_eq_iff split: prod.splits)
qed

lemma delete_unless_view:
  assumes "redis_laws (client r) view"
  shows "view (delete_unless r keep entries w) =
     (\<lambda>k. if \<exists>v. (k, v) \<in> set entries \<and> \<not> keep v then None else view w k)"
proof (induction entries arbitrary: w)
  case Nil
  then show ?case by simp
next
  case (Cons kv entries)
  then show ?case
    by (cases kv) (auto simp: fun_eq_iff law_Del[OF assms])
qed

text \<open>A namespace that the pattern of \<open>getAllEntries\<close> treats literally.\<close>

definition literal_namespace :: "('w, 'z) manager_scheme \<Rightarrow> bool" where
  "literal_namespace r \<longleftrightarrow> glob_free (createNamespaced r)"

lemma literal_namespace_star:
  assumes "literal_namespace r"
  shows "createNamespacedKey r ''*'' = createNamespaced r @ ''*''"
proof -
  have "CHR '':'' \<in> set (createNamespaced r)" by (simp add: createNamespaced_def namespaceSeparator_def)
  then have "\<not> sublist (createNamespaced r) ''*''" using set_mono_sublist by fastforce
  then show ?thesis by (simp add: createNamespacedKey_star)
qed

lemma getAllEntries_result:
  assumes "redis_laws (client r) view" and "literal_namespace r"
  obtains m w1 where "getAllEntries r w = (Inr m, w1)" and "view w1 = view w"
    and "distinct (map fst m)"
    and "map_of m = (\<lambda>k. if k \<in> dom (view w) \<and> prefix (createNamespaced r) k
                          then Some (redis_value (view w k)) else None)"
proof -
  let ?p = "createNamespaced r"
  from assms(2) have g: "glob_free ?p" by (simp add: literal_namespace_def)
  obtain ks w0 where ks: "rc_Keys (client r) (?p @ ''*'') w = (Inr ks, w0)"
    and set: "set ks = {k \<in> dom (view w). prefix ?p k}" and w0: "view w0 = view w"
    using law_Keys[OF assms(1) g, of w] law_Keys_view[OF assms(1) g, of w]
    by (cases "rc_Keys (client r) (?p @ ''*'') w") auto
  obtain m w1 where c: "collect_entries r ks [] w0 = (m, w1)" by (cases "collect_entries r ks [] w0")
  have dist: "distinct (map fst (fst (collect_entries r ks m0 w)))" if "distinct (map fst m0)" for m0 w
    using that by (induction ks arbitrary: m0 w) (auto simp: distinct_update split: prod.splits sum.splits)
  show thesis
  proof (rule that)
    show "getAllEntries r w = (Inr m, w1)"
      by (simp add: getAllEntries_def literal_namespace_star[OF assms(2)] ks c)
    show "view w1 = view w" and "map_of m = (\<lambda>k. if k \<in> dom (view w) \<and> prefix ?p k
        then Some (redis_value (view w k)) else None)"
      using collect_entries_result[OF assms(1), where keys = ks and m = "[]" and w = w0] c set w0 by auto
    show "distinct (map fst m)" using dist[of "[]" w0] c by simp
  qed
qed

lemma Clean_view:
  assumes "redis_laws (client r) view" and "literal_namespace r" and "range_order ord"
  shows "fst (Clean ord r endpoints w) = None"
    and "view (snd (Clean ord r endpoints w)) =
      (\<lambda>k. if prefix (createNamespaced r) k \<and> redis_value (view w k) \<notin> set endpoints
           then None else view w k)"
proof -
  obtain m w1 where m: "getAllEntries r w = (Inr m, w1)" "view w1 = view w" "distinct (map fst m)"
    "map_of m = (\<lambda>k. if k \<in> dom (view w) \<and> prefix (createNamespaced r) k
                          then Some (redis_value (view w k)) else None)"
    using getAllEntries_result[OF assms(1,2)] by blast
  have "(k, v) \<in> set (ord m) \<longleftrightarrow> map_of m k = Some v" for k v
    using m(3) by (simp add: range_order_set[OF assms(3)])
  then show "view (snd (Clean ord r endpoints w)) =
      (\<lambda>k. if prefix (createNamespaced r) k \<and> redis_value (view w k) \<notin> set endpoints
           then None else view w k)"
    by (auto simp: Clean_def m delete_unless_view[OF assms(1)] contains_iff fun_eq_iff)
       (metis not_None_eq surj_pair)
  show "fst (Clean ord r endpoints w) = None" by (simp add: Clean_def m)
qed

lemma RemoveEndpoint_view:
  assumes "redis_laws (client r) view" and "literal_namespace r" and "range_order ord"
  shows "view (RemoveEndpoint ord r endpoint w) =
      (\<lambda>k. if prefix (createNamespaced r) k \<and> k \<in> dom (view w) \<and> redis_value (view w k) = endpoint
           then None else view w k)"
proof -
  obtain m w1 where m: "getAllEntries r w = (Inr m, w1)" "view w1 = view w" "distinct (map fst m)"
    "map_of m = (\<lambda>k. if k \<in> dom (view w) \<and> prefix (createNamespaced r) k
                          then Some (redis_value (view w k)) else None)"
    using getAllEntries_result[OF assms(1,2)] by blast
  have "(k, v) \<in> set (ord m) \<longleftrightarrow> map_of m k = Some v" for k v
    using m(3) by (simp add: range_order_set[OF assms(3)])
  then show ?thesis
    by (auto simp: RemoveEndpoint_def m delete_unless_view[OF assms(1)] fun_eq_iff)
qed

section \<open>The manager is a session store\<close>

text \<open>
  A state of the store: the order in which Go ranges over maps, the manager, and the world.
\<close>

type_synonym 'w mgr_state =
  "((string \<times> string) list \<Rightarrow> (string \<times> string) list) \<times> 'w manager \<times> 'w"

definition mgr_ok :: "'w mgr_state \<Rightarrow> bool" where
  "mgr_ok s = (case s of (ord, r, w) \<Rightarrow>
     range_order ord \<and> literal_namespace r \<and> (\<exists>view. redis_laws (client r) view))"

definition mgr_tok :: "'w mgr_state \<Rightarrow> string \<Rightarrow> bool" where
  "mgr_tok s k = (case s of (ord, r, w) \<Rightarrow> plain_token r k)"

definition mgr_add :: "string \<Rightarrow> string \<Rightarrow> 'w mgr_state \<Rightarrow> 'w mgr_state" where
  "mgr_add k e s = (case s of (ord, r, w) \<Rightarrow> (ord, r, AddCookie r k e w))"

definition mgr_get :: "string \<Rightarrow> 'w mgr_state \<Rightarrow> (redis_error + string) \<times> 'w mgr_state" where
  "mgr_get k s = (case s of (ord, r, w) \<Rightarrow>
     (fst (GetEndpoint r k True w), (ord, r, snd (GetEndpoint r k True w))))"

definition mgr_clean :: "string list \<Rightarrow> 'w mgr_state \<Rightarrow> 'w mgr_state" where
  "mgr_clean eps s = (case s of (ord, r, w) \<Rightarrow> (ord, r, snd (Clean ord r eps w)))"

lemmas mgr_defs = mgr_ok_def mgr_tok_def mgr_add_def mgr_get_def mgr_clean_def

lemma mgr_okE:
  assumes "mgr_ok (ord, r, w)"
  obtains view where "redis_laws (client r) view" "literal_namespace r" "range_order ord"
  using assms by (auto simp: mgr_ok_def)

interpretation mgr: session_store mgr_ok mgr_tok mgr_add mgr_get mgr_clean
proof (unfold_locales, goal_cases)
  case (1 s k e) then show ?case by (cases s) (simp add: mgr_defs)
next
  case (2 s k) then show ?case by (cases s) (simp add: mgr_defs)
next
  case (3 s eps) then show ?case by (cases s) (simp add: mgr_defs)
next
  case (4 k e s) then show ?case by (cases s) (simp add: mgr_defs fun_eq_iff)
next
  case (5 k s) then show ?case by (cases s) (simp add: mgr_defs fun_eq_iff)
next
  case (6 eps s) then show ?case by (cases s) (simp add: mgr_defs fun_eq_iff)
next
  case (7 s k) then show ?case
    by (cases s) (auto simp: mgr_get_def GetEndpoint_result elim!: mgr_okE)
next
  case (8 s k j) then show ?case
    by (cases s) (auto simp: mgr_get_def GetEndpoint_result redis_value_GetEndpoint elim!: mgr_okE)
next
  case (9 s k e) then show ?case
    by (cases s) (auto simp: mgr_get_def mgr_add_def GetEndpoint_result AddCookie_view redis_value_def
        elim!: mgr_okE)
next
  case (10 s k j e) then show ?case
    by (cases s) (auto simp: mgr_get_def mgr_add_def mgr_tok_def GetEndpoint_result AddCookie_view
        plain_token_key_inject elim!: mgr_okE)
next
  case (11 s k e eps)
  obtain ord r w where s: "s = (ord, r, w)" by (cases s)
  with 11 obtain view where v: "redis_laws (client r) view" "literal_namespace r" "range_order ord"
    by (auto elim: mgr_okE)
  from 11 s have k: "createNamespacedKey r k = createNamespaced r @ k"
    by (simp add: mgr_tok_def plain_token_key)
  from 11(3) s have "e = redis_value (view w (createNamespaced r @ k))"
    by (simp add: mgr_get_def GetEndpoint_result[OF v(1)] k)
  then show ?case
    by (auto simp: s mgr_get_def mgr_clean_def GetEndpoint_result[OF v(1)] Clean_view(2)[OF v] k
        redis_value_def)
qed


section \<open>Properties\<close>

text \<open>The operations as steps on the world of the redis client.\<close>

definition manager_step ::
  "((string \<times> string) list \<Rightarrow> (string \<times> string) list) \<Rightarrow> 'w manager \<Rightarrow> session_op \<Rightarrow> 'w \<Rightarrow> 'w" where
  "manager_step ord r =
     session_step (AddCookie r) (\<lambda>k. GetEndpoint r k True) (\<lambda>eps w. snd (Clean ord r eps w))"

definition manager_table :: "('w \<Rightarrow> string \<Rightarrow> (string \<times> int) option) \<Rightarrow> 'w manager \<Rightarrow> 'w \<Rightarrow> session_table" where
  "manager_table view r w k = redis_value (view w (createNamespacedKey r k))"

lemma mgr_step_world:
  "session_step mgr_add mgr_get mgr_clean p (ord, r, w) = (ord, r, manager_step ord r p w)"
  by (cases p) (simp_all add: manager_step_def mgr_defs)

lemma mgr_run_world:
  "fold (session_step mgr_add mgr_get mgr_clean) ops (ord, r, w) = (ord, r, fold (manager_step ord r) ops w)"
  by (induction ops arbitrary: w) (simp_all add: mgr_step_world)

lemma mgr_okI:
  "redis_laws (client r) view \<Longrightarrow> literal_namespace r \<Longrightarrow> range_order ord \<Longrightarrow> mgr_ok (ord, r, w)"
  by (auto simp: mgr_ok_def)

lemma mgr_table:
  assumes "redis_laws (client r) view"
  shows "mgr.table (ord, r, w) = manager_table view r w"
  by (auto simp: mgr.table_def mgr_get_def manager_table_def GetEndpoint_result[OF assms])

text \<open>C8: the manager refines the abstract session table. After any sequence of
  \<open>AddCookie\<close>, \<open>GetEndpoint\<close> and \<open>Clean\<close> calls, issued by any replica, \<open>GetEndpoint\<close> on a
  session returns what the abstract table of sessions holds after the same operations.\<close>

theorem manager_refines_session_table:
  assumes "redis_laws (client r) view" and "literal_namespace r" and "range_order ord"
    and "\<forall>p \<in> set ops. \<forall>j \<in> op_tokens p. plain_token r j" and "plain_token r k"
  shows "fst (GetEndpoint r k u (fold (manager_step ord r) ops w)) =
     Inr (fold session_spec ops (manager_table view r w) k)"
proof -
  have "fst (mgr_get k (fold (session_step mgr_add mgr_get mgr_clean) ops (ord, r, w))) =
      Inr (fold session_spec ops (mgr.table (ord, r, w)) k)"
    using assms by (intro mgr.run_table mgr_okI) (simp_all add: mgr_tok_def)
  then have "fst (GetEndpoint r k True (fold (manager_step ord r) ops w)) =
      Inr (fold session_spec ops (manager_table view r w) k)"
    by (simp only: mgr_run_world mgr_table[OF assms(1)] mgr_get_def prod.case fst_conv)
  then show ?thesis by (simp add: GetEndpoint_result[OF assms(1)])
qed

lemma example_literal_namespace: "literal_namespace example_manager"
  by (simp add: literal_namespace_def glob_free_def createNamespaced_def namespaceSeparator_def
      example_manager_def)

lemma example_client: "redis_laws (client example_manager) map_of"
  by (simp add: example_manager_def example_redis_laws)

lemma example_plain: "plain_token example_manager ''abc'' \<and> plain_token example_manager ''xyz''"
  by code_simp

lemma manager_refines_session_table_witness:
  "fst (GetEndpoint example_manager ''abc'' True
     (fold (manager_step rev example_manager)
        [AddSession ''abc'' ''10.0.0.1'', AddSession ''xyz'' ''10.0.0.2'', CleanSessions [''10.0.0.1'']] [])) =
   Inr ''10.0.0.1''"
proof -
  let ?ops = "[AddSession ''abc'' ''10.0.0.1'', AddSession ''xyz'' ''10.0.0.2'', CleanSessions [''10.0.0.1'']]"
  have "fst (GetEndpoint example_manager ''abc'' True (fold (manager_step rev example_manager) ?ops [])) =
      Inr (fold session_spec ?ops (manager_table map_of example_manager []) ''abc'')"
    using example_plain
    by (intro manager_refines_session_table example_client example_literal_namespace range_order_rev) simp_all
  then show ?thesis by simp
qed

text \<open>A recorded session is kept until another endpoint is recorded for it or its endpoint is cleaned.\<close>

lemma session_kept:
  assumes "redis_laws (client r) view" and "literal_namespace r" and "range_order ord"
    and "plain_token r k" and "e \<noteq> ''''"
    and "\<forall>p \<in> set ops. \<forall>j \<in> op_tokens p. plain_token r j"
    and "\<forall>p \<in> set ops. (\<forall>e'. p = AddSession k e' \<longrightarrow> e' = e) \<and>
           (\<forall>eps. p = CleanSessions eps \<longrightarrow> e \<in> set eps)"
  shows "fst (GetEndpoint r k u (fold (manager_step ord r) ops (AddCookie r k e w))) = Inr e"
proof -
  have "fst (mgr_get k (fold (session_step mgr_add mgr_get mgr_clean) ops (mgr_add k e (ord, r, w)))) = Inr e"
    using assms by (intro mgr.sticky mgr_okI) (simp_all add: mgr_tok_def)
  then have "fst (GetEndpoint r k True (fold (manager_step ord r) ops (AddCookie r k e w))) = Inr e"
    by (simp add: mgr_add_def mgr_run_world mgr_get_def)
  then show ?thesis by (simp add: GetEndpoint_result[OF assms(1)])
qed

text \<open>C23: \<open>Clean\<close> is exact. While redis answers, it reports no error and removes exactly the
  namespaced entries whose endpoint is not in the list; every other entry, of this or of
  another namespace, keeps its value and its time to live, whatever the order of the map.\<close>

theorem Clean_exact:
  assumes "redis_laws (client r) view" and "literal_namespace r" and "range_order ord"
  shows "fst (Clean ord r endpoints w) = None \<and>
     view (snd (Clean ord r endpoints w)) =
      (\<lambda>k. if prefix (createNamespaced r) k \<and> redis_value (view w k) \<notin> set endpoints
           then None else view w k)"
  using Clean_view[OF assms] by blast

lemma Clean_exact_witness:
  "map_of (snd (Clean rev example_manager [''10.0.0.1'']
       [(''WLS-ING:abc'', ''10.0.0.1'', 5), (''WLS-ING:xyz'', ''10.0.0.2'', 7), (''other'', ''10.0.0.2'', 9)])) =
   [''WLS-ING:abc'' \<mapsto> (''10.0.0.1'', 5), ''other'' \<mapsto> (''10.0.0.2'', 9)]"
  using Clean_exact[OF example_client example_literal_namespace range_order_rev,
      of "[''10.0.0.1'']"
         "[(''WLS-ING:abc'', ''10.0.0.1'', 5), (''WLS-ING:xyz'', ''10.0.0.2'', 7), (''other'', ''10.0.0.2'', 9)]"]
  by (auto simp: fun_eq_iff createNamespaced_def namespaceSeparator_def example_manager_def redis_value_def)


text \<open>\<open>RemoveEndpoint\<close> is exact. It removes the namespaced entries that lead to the
  endpoint, and leaves every other entry with its value and time to live.\<close>

lemma RemoveEndpoint_exact:
  assumes "redis_laws (client r) view" and "literal_namespace r" and "range_order ord"
  shows "view (RemoveEndpoint ord r endpoint w) =
      (\<lambda>k. if prefix (createNamespaced r) k \<and> (\<exists>t. view w k = Some (endpoint, t))
           then None else view w k)"
  by (auto simp: RemoveEndpoint_view[OF assms] redis_value_def fun_eq_iff split: option.splits)

text \<open>Reading a session keeps it alive. \<open>GetEndpoint\<close> with \<open>updateExpire\<close> resets the time
  to live of a known session to one hour and changes no value; without it, it changes
  nothing; an unknown session reads as the empty string and is not created.\<close>

lemma GetEndpoint_keeps_alive:
  assumes "redis_laws (client r) view"
  shows "view (snd (GetEndpoint r k u w)) =
     (\<lambda>x. if u \<and> x = createNamespacedKey r k then map_option (\<lambda>(v, t). (v, time_Hour)) (view w x)
          else view w x) \<and>
     (view w (createNamespacedKey r k) = None \<longrightarrow> fst (GetEndpoint r k u w) = Inr '''')"
  by (auto simp: GetEndpoint_view[OF assms] GetEndpoint_result[OF assms] redis_value_def fun_eq_iff
      split: option.splits)

text \<open>An error of redis is reported and nothing is removed. When the listing of the keys
  fails, \<open>Clean\<close> returns that error and \<open>RemoveEndpoint\<close> stops, both in the world the failed
  command left; when a read fails, \<open>GetEndpoint\<close> returns the error and does not touch the
  time to live.\<close>

lemma redis_failure_changes_nothing:
  assumes "e \<noteq> RedisNil"
  shows "(rc_Keys (client r) (createNamespacedKey r ''*'') w = (Inl e, w') \<longrightarrow>
       Clean ord r endpoints w = (Some e, w') \<and> RemoveEndpoint ord r endpoint w = w') \<and>
     (rc_Get (client r) (createNamespacedKey r k) w = (Inl e, w') \<longrightarrow>
       GetEndpoint r k u w = (Inl e, w'))"
  using assms by (simp_all add: Clean_def RemoveEndpoint_def getAllEntries_def GetEndpoint_def)

definition failing_redis :: "nat redis_client" where
  "failing_redis = \<lparr>
     rc_Get = (\<lambda>k w. (Inl (RedisErr ''EOF''), Suc w)), rc_Set = (\<lambda>k v t w. (Some (RedisErr ''EOF''), Suc w)),
     rc_Del = (\<lambda>k w. (Some (RedisErr ''EOF''), Suc w)), rc_Expire = (\<lambda>k t w. (Some (RedisErr ''EOF''), Suc w)),
     rc_Keys = (\<lambda>pat w. (Inl (RedisErr ''EOF''), Suc w)), rc_Ping = (\<lambda>w. (Some (RedisErr ''EOF''), Suc w)),
     rc_Close = (\<lambda>w. w) \<rparr>"

definition failing_manager :: "nat manager" where
  "failing_manager = \<lparr>
     MasterName = ''mymaster'', SentinelAddrs = [''redis-redis-ha.redis:26379''],
     RedisMaxRetries = 3, RedisMinRetryBackoff = 5 * 10 ^ 9, RedisMaxRetryBackoff = 10 ^ 10,
     RedisNamespacePrefix = ''WLS-ING'', client = failing_redis \<rparr>"

text \<open>The keys of sessions. The key of a token is stable under namespacing again, and two
  tokens without the namespace in them have different keys; but a token that contains the
  namespace anywhere is its own key, so that \<open>Clean\<close> never finds it when the namespace is
  not its prefix.\<close>

lemma namespaced_keys:
  "createNamespacedKey r (createNamespacedKey r key) = createNamespacedKey r key \<and>
   (plain_token r j \<and> plain_token r k \<and> j \<noteq> k \<longrightarrow> createNamespacedKey r j \<noteq> createNamespacedKey r k) \<and>
   (redis_laws (client r) view \<and> literal_namespace r \<and> range_order ord \<and>
      Contains key (createNamespaced r) \<and> \<not> prefix (createNamespaced r) key \<longrightarrow>
    fst (GetEndpoint r key u (snd (Clean ord r endpoints (AddCookie r key e w)))) = Inr e)"
proof (intro conjI impI)
  assume *: "redis_laws (client r) view \<and> literal_namespace r \<and> range_order ord \<and>
      Contains key (createNamespaced r) \<and> \<not> prefix (createNamespaced r) key"
  then have "createNamespacedKey r key = key" by (simp add: createNamespacedKey_def)
  with * show "fst (GetEndpoint r key u (snd (Clean ord r endpoints (AddCookie r key e w)))) = Inr e"
    by (simp add: GetEndpoint_result[of r view] Clean_view(2)[of r view] AddCookie_view[of r view] redis_value_def)
qed (simp_all add: createNamespacedKey_idem plain_token_key_inject)

end
