(* ===== verification/Handler.thy ===== *)
theory Handler
  imports GoHttp IngressTypes RedisManager
begin

text \<open>
  The package \<open>internal/ingress/handler/http\<close>: the handler that every request to the
  controller goes through. It picks the endpoints of the requested host from the running
  configuration, sends a request without a session to a random endpoint and records the
  session the endpoint opened, and sends a request with a session to the endpoint that
  redis knows for it.

  The model is one function per request, \<open>handleRootWLS\<close>, from the handler and the world of
  the redis client to the new handler, the new world and the outcome of the request. A
  panic of the request's goroutine is an \<open>Inl\<close>. Parameters: \<open>he_parseURL\<close> (whether
  \<open>url.Parse\<close> accepts the address of an upstream), \<open>he_roundTrip\<close> (what the upstream
  answers) and the index \<open>rand.Intn\<close> draws.
\<close>

section \<open>Model\<close>

record wls_handler =
  proxyMap :: "(string, string) go_map"
  targetConfig :: "configuration option"

record handler_env =
  he_parseURL :: "string \<Rightarrow> bool"
  he_roundTrip :: "string \<Rightarrow> http_request \<Rightarrow> roundtrip"

text \<open>
  What a request leaves behind: the response, \<open>r.Close\<close>, and the upstreams (by URL) it was
  forwarded to.
\<close>

record http_outcome =
  oc_response :: response_writer
  oc_Close :: bool
  oc_forwarded :: "string list"

definition InstallHandler :: "configuration option \<Rightarrow> wls_handler" where
  "InstallHandler config = \<lparr>proxyMap = [], targetConfig = config\<rparr>"

definition UpdateConfiguration :: "configuration option \<Rightarrow> wls_handler \<Rightarrow> wls_handler" where
  "UpdateConfiguration config h = h\<lparr>targetConfig := config\<rparr>"

definition removeProxy :: "string \<Rightarrow> wls_handler \<Rightarrow> wls_handler" where
  "removeProxy upstream h = h\<lparr>proxyMap := AList.delete upstream (proxyMap h)\<rparr>"

definition getHost :: "http_request \<Rightarrow> string" where
  "getHost r = (if req_Host r = '''' then '''' else Split (req_Host r) '':'' ! 0)"

primrec find_service :: "string \<Rightarrow> configuration_backend option list \<Rightarrow> endpoint slice res" where
  "find_service host [] = Inr None"
| "find_service host (p # ps) =
     bind_res (deref p) (\<lambda>service.
       if cb_Hostname service = host
       then bind_res (deref (cb_Backend service)) (\<lambda>b. Inr (be_Endpoints b))
       else find_service host ps)"

definition handler_getEndpoints :: "wls_handler \<Rightarrow> string \<Rightarrow> endpoint slice res" where
  "handler_getEndpoints h host =
     bind_res (deref (targetConfig h)) (\<lambda>config.
       case Services config of
         None \<Rightarrow> Inr None
       | Some services \<Rightarrow> find_service host services)"

text \<open>\<open>None\<close> is the nil pointer the loop over no service returns.\<close>

definition getAnyEndpoint :: "wls_handler \<Rightarrow> endpoint option res" where
  "getAnyEndpoint h =
     bind_res (deref (targetConfig h)) (\<lambda>config.
       case elems (Services config) of
         [] \<Rightarrow> Inr None
       | p # _ \<Rightarrow>
           bind_res (deref p) (\<lambda>service.
           bind_res (deref (cb_Backend service)) (\<lambda>b.
           bind_res (go_index (be_Endpoints b) 0) (\<lambda>e. Inr (Some e)))))"

definition answer :: "string \<Rightarrow> int \<Rightarrow> bool \<Rightarrow> http_outcome" where
  "answer msg code close =
     \<lparr>oc_response = http_Error msg code new_response, oc_Close = close, oc_forwarded = []\<rparr>"

definition forward :: "handler_env \<Rightarrow> http_request \<Rightarrow> string \<Rightarrow> http_outcome" where
  "forward env r url =
     \<lparr>oc_response = proxy_ServeHTTP (he_roundTrip env url r) new_response,
      oc_Close = False, oc_forwarded = [url]\<rparr>"

text \<open>A later \<open>http.Error\<close> writes to the response that was already sent.\<close>

definition then_error :: "string \<Rightarrow> int \<Rightarrow> http_outcome \<Rightarrow> http_outcome" where
  "then_error msg code oc = oc\<lparr>oc_response := http_Error msg code (oc_response oc)\<rparr>"

text \<open>The string handed to \<open>url.Parse\<close> for an address and a port.\<close>

definition upstream_url :: "string \<Rightarrow> string \<Rightarrow> string" where
  "upstream_url address port = ''http://'' @ address @ '':'' @ port"

definition class_lookup_prefix :: string where
  "class_lookup_prefix = ''/bea_wls_internal/classeskkkkkkk''"

text \<open>The branch for a host without endpoints: a class lookup, or 404.\<close>

definition handle_unknown_host ::
  "handler_env \<Rightarrow> wls_handler \<Rightarrow> http_request \<Rightarrow> http_outcome res" where
  "handle_unknown_host env h r =
     (if req_Method r = ''GET'' \<and> HasPrefix (req_RequestURI r) class_lookup_prefix then
        bind_res (getAnyEndpoint h) (\<lambda>p.
        bind_res (deref p) (\<lambda>endpoint.
          let url = upstream_url (Address endpoint) (Port endpoint) in
          if \<not> he_parseURL env url then Inr (answer ''URL Error'' 500 False)
          else Inr (forward env r url)))
      else Inr (answer ''No endpoints Error'' 404 True))"

text \<open>
  \<open>proxyMap.Load\<close>, and on a miss \<open>url.Parse\<close> and \<open>proxyMap.Store\<close>: the reverse proxy for
  an address, or \<open>None\<close> when the URL does not parse.
\<close>

definition load_proxy ::
  "handler_env \<Rightarrow> wls_handler \<Rightarrow> string \<Rightarrow> string \<Rightarrow> (wls_handler \<times> string) option" where
  "load_proxy env h address url =
     (case map_of (proxyMap h) address of
        Some val \<Rightarrow> Some (h, val)
      | None \<Rightarrow>
          if he_parseURL env url
          then Some (h\<lparr>proxyMap := AList.update address url (proxyMap h)\<rparr>, url)
          else None)"

text \<open>The session a Set-Cookie header opens.\<close>

definition jsession_of :: "string \<Rightarrow> string option" where
  "jsession_of cookie =
     (if Index cookie ''JSESSIONID='' \<noteq> None
      then Some (Split (Split cookie ''JSESSIONID='' ! 1) '';'' ! 0) else None)"

definition handle_new_session ::
  "handler_env \<Rightarrow> 'w manager \<Rightarrow> wls_handler \<Rightarrow> 'w \<Rightarrow> http_request \<Rightarrow> endpoint list \<Rightarrow> nat
     \<Rightarrow> (wls_handler \<times> 'w \<times> http_outcome) res" where
  "handle_new_session env ls h w r endpoints randomIndex =
     bind_res (go_index (Some endpoints) randomIndex) (\<lambda>e.
       case load_proxy env h (Address e) (upstream_url (Address e) (Port e)) of
         None \<Rightarrow> Inr (h, w, answer ''URL Error'' 500 False)
       | Some (h', url) \<Rightarrow>
           (let oc = forward env r url;
                cookie = Header_Get (rw_header (oc_response oc)) ''Set-Cookie''
            in if cookie = '''' then Inr (h', w, then_error ''URL Error'' 500 oc)
               else (case jsession_of cookie of
                  Some jsession \<Rightarrow> Inr (h', AddCookie ls jsession (Address e) w, oc)
                | None \<Rightarrow> Inr (h', w, then_error ''URL Error'' 500 oc))))"

definition handle_session ::
  "handler_env \<Rightarrow> 'w manager \<Rightarrow> wls_handler \<Rightarrow> 'w \<Rightarrow> http_request \<Rightarrow> string
     \<Rightarrow> wls_handler \<times> 'w \<times> http_outcome" where
  "handle_session env ls h w r cookie =
     (case GetEndpoint ls cookie True w of
        (Inl _, w') \<Rightarrow> (h, w', answer ''Redis Error'' 500 False)
      | (Inr endpoint, w') \<Rightarrow>
          if endpoint = '''' then (h, w', answer ''Upstream Service Went Away Error'' 503 True)
          else (case load_proxy env h endpoint (upstream_url endpoint ''7001'') of
             None \<Rightarrow> (h, w', answer ''URL Error'' 500 False)
           | Some (h', url) \<Rightarrow> (h', w', forward env r url)))"

definition handleRootWLS ::
  "handler_env \<Rightarrow> 'w manager \<Rightarrow> wls_handler \<Rightarrow> 'w \<Rightarrow> http_request \<Rightarrow> nat
     \<Rightarrow> (wls_handler \<times> 'w \<times> http_outcome) res" where
  "handleRootWLS env ls h w r randomIndex =
     (let host = getHost r in
      if host = '''' then Inr (h, w, answer ''No Host Error'' 400 False)
      else bind_res (handler_getEndpoints h host) (\<lambda>eps.
        case eps of
          None \<Rightarrow> bind_res (handle_unknown_host env h r) (\<lambda>oc. Inr (h, w, oc))
        | Some endpoints \<Rightarrow>
            if endpoints = [] then Inr (h, w, answer ''No Services Error'' 503 True)
            else (case request_Cookie r ''JSESSIONID'' of
               None \<Rightarrow> handle_new_session env ls h w r endpoints randomIndex
             | Some cookie \<Rightarrow> Inr (handle_session env ls h w r cookie))))"

section \<open>Well-formed handlers\<close>

text \<open>A configuration without nil pointers: what \<open>getConfiguration\<close> builds.\<close>

definition config_wf :: "configuration \<Rightarrow> bool" where
  "config_wf c \<longleftrightarrow> (\<forall>p \<in> set (elems (Services c)). \<exists>s b. p = Some s \<and> cb_Backend s = Some b)"

definition handler_config_wf :: "wls_handler \<Rightarrow> bool" where
  "handler_config_wf h \<longleftrightarrow> (\<exists>c. targetConfig h = Some c \<and> config_wf c)"

text \<open>Every cached reverse proxy leads to the address it is stored under.\<close>

definition proxies_ok :: "wls_handler \<Rightarrow> bool" where
  "proxies_ok h \<longleftrightarrow>
     (\<forall>a url. map_of (proxyMap h) a = Some url \<longrightarrow> (\<exists>port. url = upstream_url a port))"

text \<open>The service that \<open>find_service\<close> selects.\<close>

lemma find_service_wf:
  assumes "\<forall>p \<in> set ps. \<exists>s b. p = Some s \<and> cb_Backend s = Some b"
  shows "find_service host ps =
    Inr (case find (\<lambda>p. cb_Hostname (the p) = host) ps of
           None \<Rightarrow> None | Some p \<Rightarrow> be_Endpoints (the (cb_Backend (the p))))"
  using assms
proof (induction ps)
  case Nil
  then show ?case by simp
next
  case (Cons p ps)
  then obtain s b where "p = Some s" "cb_Backend s = Some b" by auto
  with Cons show ?case by simp
qed

lemma handler_getEndpoints_wf:
  assumes "handler_config_wf h"
  shows "\<exists>eps. handler_getEndpoints h host = Inr eps"
proof -
  from assms obtain c where c: "targetConfig h = Some c" "config_wf c"
    by (auto simp: handler_config_wf_def)
  show ?thesis
  proof (cases "Services c")
    case None
    with c show ?thesis by (simp add: handler_getEndpoints_def)
  next
    case (Some ps)
    with c find_service_wf[of ps host] show ?thesis
      by (simp add: handler_getEndpoints_def config_wf_def)
  qed
qed

section \<open>Sessions in headers\<close>

lemma nth_0_Split: "Split s sep ! 0 = hd (Split s sep)"
  by (simp add: hd_conv_nth)

lemma jsession_of_set_cookie:
  assumes "CHR '';'' \<notin> set v" and "Index (v @ rest) ''JSESSIONID='' = None"
    and "rest = [] \<or> hd rest = CHR '';''"
  shows "jsession_of (''JSESSIONID='' @ v @ rest) = Some v"
proof -
  let ?sep = "''JSESSIONID=''"
  have i: "Index (?sep @ v @ rest) ?sep = Some 0" by simp
  have "Split (?sep @ v @ rest) ?sep = [] # Split (v @ rest) ?sep"
    using Split_Some[OF _ i] by simp
  then have "Split (?sep @ v @ rest) ?sep ! 1 = v @ rest"
    using assms(2) by (simp add: Split_None)
  moreover have "takeWhile (\<lambda>d. d \<noteq> CHR '';'') (v @ rest) = v"
    using assms(1,3) by (cases rest) (auto simp: takeWhile_append)
  then have "Split (v @ rest) '';'' ! 0 = v" by (simp only: nth_0_Split Split_char_hd)
  ultimately show ?thesis using i by (simp add: jsession_of_def)
qed

lemma jsession_of_Nil: "jsession_of '''' = None"
  by code_simp

section \<open>Cached proxies\<close>

lemma load_proxy_inv:
  assumes "load_proxy env h a (upstream_url a p) = Some (h', url)"
  shows "proxies_ok h \<Longrightarrow> proxies_ok h'"
    and "proxies_ok h \<Longrightarrow> \<exists>port. url = upstream_url a port"
    and "targetConfig h' = targetConfig h"
    and "map_of (proxyMap h') = (map_of (proxyMap h))(a \<mapsto> url)"
  using assms
  by (auto simp: load_proxy_def proxies_ok_def update_conv' split: option.splits if_splits)

lemma load_proxy_None:
  "load_proxy env h a url = None \<longleftrightarrow> map_of (proxyMap h) a = None \<and> \<not> he_parseURL env url"
  by (simp add: load_proxy_def split: option.splits)

lemma proxies_ok_InstallHandler: "proxies_ok (InstallHandler c)"
  by (simp add: proxies_ok_def InstallHandler_def)

lemma proxies_ok_UpdateConfiguration: "proxies_ok h \<Longrightarrow> proxies_ok (UpdateConfiguration c h)"
  by (simp add: proxies_ok_def UpdateConfiguration_def)

lemma proxies_ok_removeProxy: "proxies_ok h \<Longrightarrow> proxies_ok (removeProxy a h)"
  by (auto simp: proxies_ok_def removeProxy_def delete_conv' split: if_splits)

text \<open>What a request does to the handler and the world, branch by branch.\<close>

lemma handle_new_session_cases:
  assumes "handle_new_session env ls h w r eps i = Inr (h', w', oc)"
  obtains (bad_url) "i < length eps" "h' = h" "w' = w" "oc = answer ''URL Error'' 500 False"
      "load_proxy env h (Address (eps ! i)) (upstream_url (Address (eps ! i)) (Port (eps ! i))) = None"
  | (no_session) url where "i < length eps" "w' = w" "oc = then_error ''URL Error'' 500 (forward env r url)"
      "load_proxy env h (Address (eps ! i)) (upstream_url (Address (eps ! i)) (Port (eps ! i))) = Some (h', url)"
      "Header_Get (rw_header (oc_response (forward env r url))) ''Set-Cookie'' = '''' \<or>
       jsession_of (Header_Get (rw_header (oc_response (forward env r url))) ''Set-Cookie'') = None"
  | (session) url j where "i < length eps" "w' = AddCookie ls j (Address (eps ! i)) w" "oc = forward env r url"
      "load_proxy env h (Address (eps ! i)) (upstream_url (Address (eps ! i)) (Port (eps ! i))) = Some (h', url)"
      "jsession_of (Header_Get (rw_header (oc_response (forward env r url))) ''Set-Cookie'') = Some j"
proof -
  let ?e = "eps ! i"
  let ?load = "load_proxy env h (Address ?e) (upstream_url (Address ?e) (Port ?e))"
  from assms have i: "i < length eps"
    by (simp add: handle_new_session_def go_index_def split: if_splits)
  show thesis
  proof (cases ?load)
    case None
    with assms i bad_url show thesis by (simp add: handle_new_session_def go_index_def)
  next
    case (Some hu)
    obtain h1 url where hu: "hu = (h1, url)" by (cases hu)
    let ?c = "Header_Get (rw_header (oc_response (forward env r url))) ''Set-Cookie''"
    show thesis
    proof (cases "?c = '''' \<or> jsession_of ?c = None")
      case True
      with assms i Some hu no_session[of url] show thesis
        by (auto simp: handle_new_session_def go_index_def Let_def split: if_splits)
    next
      case False
      then obtain j where "jsession_of ?c = Some j" by auto
      with False assms i Some hu session[of j url] show thesis
        by (auto simp: handle_new_session_def go_index_def Let_def)
    qed
  qed
qed

lemma handle_session_cases:
  assumes "handle_session env ls h w r v = (h', w', oc)"
  obtains (error) e where "GetEndpoint ls v True w = (Inl e, w')" "h' = h"
      "oc = answer ''Redis Error'' 500 False"
  | (gone) "GetEndpoint ls v True w = (Inr '''', w')" "h' = h"
      "oc = answer ''Upstream Service Went Away Error'' 503 True"
  | (bad_url) e where "GetEndpoint ls v True w = (Inr e, w')" "e \<noteq> ''''" "h' = h"
      "oc = answer ''URL Error'' 500 False" "load_proxy env h e (upstream_url e ''7001'') = None"
  | (found) e url where "GetEndpoint ls v True w = (Inr e, w')" "e \<noteq> ''''"
      "load_proxy env h e (upstream_url e ''7001'') = Some (h', url)" "oc = forward env r url"
  using assms
  by (auto simp: handle_session_def split: prod.splits sum.splits if_splits option.splits)

lemma handleRootWLS_cases:
  assumes "handleRootWLS env ls h w r i = Inr (h', w', oc)"
  obtains (no_host) "getHost r = ''''" "h' = h" "w' = w" "oc = answer ''No Host Error'' 400 False"
  | (unknown_host) "getHost r \<noteq> ''''" "handler_getEndpoints h (getHost r) = Inr None"
      "handle_unknown_host env h r = Inr oc" "h' = h" "w' = w"
  | (no_endpoint) "getHost r \<noteq> ''''" "handler_getEndpoints h (getHost r) = Inr (Some [])"
      "h' = h" "w' = w" "oc = answer ''No Services Error'' 503 True"
  | (new_session) eps where "getHost r \<noteq> ''''" "handler_getEndpoints h (getHost r) = Inr (Some eps)"
      "eps \<noteq> []" "request_Cookie r ''JSESSIONID'' = None"
      "handle_new_session env ls h w r eps i = Inr (h', w', oc)"
  | (has_session) eps v where "getHost r \<noteq> ''''" "handler_getEndpoints h (getHost r) = Inr (Some eps)"
      "eps \<noteq> []" "request_Cookie r ''JSESSIONID'' = Some v"
      "handle_session env ls h w r v = (h', w', oc)"
proof (cases "getHost r = ''''")
  case True
  with assms no_host show thesis by (simp add: handleRootWLS_def)
next
  case False
  obtain eps where eps: "handler_getEndpoints h (getHost r) = Inr eps"
    using assms False by (cases "handler_getEndpoints h (getHost r)") (simp_all add: handleRootWLS_def)
  show thesis
  proof (cases eps)
    case None
    with assms False eps have "handle_unknown_host env h r = Inr oc \<and> h' = h \<and> w' = w"
      by (auto simp: handleRootWLS_def)
    with False eps None unknown_host show thesis by blast
  next
    case (Some es)
    show thesis
    proof (cases "es = []")
      case True
      with assms False eps Some have "h' = h \<and> w' = w \<and> oc = answer ''No Services Error'' 503 True"
        by (simp add: handleRootWLS_def)
      with False eps Some True no_endpoint show thesis by blast
    next
      case ne: False
      show thesis
      proof (cases "request_Cookie r ''JSESSIONID''")
        case None
        with assms False eps Some ne have "handle_new_session env ls h w r es i = Inr (h', w', oc)"
          by (simp add: handleRootWLS_def)
        with False eps Some ne None new_session show thesis by blast
      next
        case (Some v)
        with assms False eps \<open>eps = Some es\<close> ne have "handle_session env ls h w r v = (h', w', oc)"
          by (simp add: handleRootWLS_def)
        with False eps \<open>eps = Some es\<close> ne Some has_session show thesis by blast
      qed
    qed
  qed
qed

lemma handle_new_session_inv:
  assumes "handle_new_session env ls h w r eps i = Inr (h', w', oc)"
  shows "proxies_ok h \<Longrightarrow> proxies_ok h'" and "targetConfig h' = targetConfig h"
  using assms by (cases rule: handle_new_session_cases; auto dest: load_proxy_inv)+

lemma handle_session_inv:
  assumes "handle_session env ls h w r v = (h', w', oc)"
  shows "proxies_ok h \<Longrightarrow> proxies_ok h'" and "targetConfig h' = targetConfig h"
  using assms by (cases rule: handle_session_cases; auto dest: load_proxy_inv)+

lemma handleRootWLS_inv:
  assumes "handleRootWLS env ls h w r i = Inr (h', w', oc)"
  shows "proxies_ok h \<Longrightarrow> proxies_ok h'" and "targetConfig h' = targetConfig h"
  using assms
  by (cases rule: handleRootWLS_cases; auto dest: handle_new_session_inv handle_session_inv)+


section \<open>The handler over time\<close>

text \<open>
  The steps of one replica: it serves a request (\<open>rand.Intn\<close> draws an index below the number
  of endpoints), the controller installs a configuration, a cached proxy is dropped, or the
  redis world changes behind it (another replica, expiry).
\<close>

definition rand_in_range :: "wls_handler \<Rightarrow> http_request \<Rightarrow> nat \<Rightarrow> bool" where
  "rand_in_range h r i \<longleftrightarrow>
     (case handler_getEndpoints h (getHost r) of Inr (Some eps) \<Rightarrow> eps = [] \<or> i < length eps | _ \<Rightarrow> True)"

inductive handler_step ::
  "handler_env \<Rightarrow> 'w manager \<Rightarrow> wls_handler \<times> 'w \<Rightarrow> wls_handler \<times> 'w \<Rightarrow> bool"
  for env :: handler_env and ls :: "'w manager" where
  request: "rand_in_range h r i \<Longrightarrow> handleRootWLS env ls h w r i = Inr (h', w', oc) \<Longrightarrow>
     handler_step env ls (h, w) (h', w')"
| update: "handler_step env ls (h, w) (UpdateConfiguration c h, w)"
| drop_proxy: "handler_step env ls (h, w) (removeProxy a h, w)"
| environment: "handler_step env ls (h, w) (h, w')"

inductive_cases handler_stepE: "handler_step env ls (h, w) (h', w')"

lemma handler_step_proxies_ok:
  "handler_step env ls s t \<Longrightarrow> proxies_ok (fst s) \<Longrightarrow> proxies_ok (fst t)"
  by (induction rule: handler_step.induct)
    (auto dest: handleRootWLS_inv intro: proxies_ok_UpdateConfiguration proxies_ok_removeProxy)

interpretation handler_run: invariant_steps "handler_step env ls" "\<lambda>s. proxies_ok (fst s)"
  for env :: handler_env and ls :: "'w manager"
  by unfold_locales (rule handler_step_proxies_ok)

lemma reachable_from_install:
  "(handler_step env ls)\<^sup>*\<^sup>* (InstallHandler c, w0) (h, w) \<Longrightarrow> proxies_ok h"
  using handler_run.reach_inv[of env ls "(InstallHandler c, w0)" "(h, w)"] proxies_ok_InstallHandler by simp

section \<open>Properties\<close>

text \<open>The upstreams a request may be forwarded to.\<close>

definition class_lookup :: "http_request \<Rightarrow> bool" where
  "class_lookup r \<longleftrightarrow> req_Method r = ''GET'' \<and> HasPrefix (req_RequestURI r) class_lookup_prefix"

definition may_forward :: "'w manager \<Rightarrow> wls_handler \<Rightarrow> 'w \<Rightarrow> http_request \<Rightarrow> string \<Rightarrow> bool" where
  "may_forward ls h w r a \<longleftrightarrow>
     (case handler_getEndpoints h (getHost r) of
        Inr None \<Rightarrow> class_lookup r \<and> (\<exists>e. getAnyEndpoint h = Inr (Some e) \<and> a = Address e)
      | Inr (Some eps) \<Rightarrow>
          (case request_Cookie r ''JSESSIONID'' of
             None \<Rightarrow> a \<in> Address ` set eps
           | Some v \<Rightarrow> a \<noteq> '''' \<and> fst (GetEndpoint ls v True w) = Inr a)
      | Inl _ \<Rightarrow> False)"

text \<open>C12: where requests go. In every reachable state of the handler, a request that is
  forwarded at all is forwarded once, to an endpoint of the requested host when it carries no
  session, to the endpoint redis knows for its session otherwise, and to the first endpoint
  of the first service for a class lookup on a host without endpoints.\<close>

theorem forwarded_to_chosen_endpoint:
  assumes "(handler_step env ls)\<^sup>*\<^sup>* (InstallHandler c, w0) (h, w)"
    and "handleRootWLS env ls h w r i = Inr (h', w', oc)" and "oc_forwarded oc \<noteq> []"
  shows "\<exists>a port. oc_forwarded oc = [upstream_url a port] \<and> may_forward ls h w r a"
proof -
  from assms(1) have ok: "proxies_ok h" by (rule reachable_from_install)
  from assms(2) show ?thesis
  proof (cases rule: handleRootWLS_cases)
    case unknown_host
    with assms(3) show ?thesis
      by (auto simp: handle_unknown_host_def may_forward_def class_lookup_def answer_def forward_def
          Let_def deref_def split: if_splits option.splits)
  next
    case (new_session eps)
    from new_session(5) show ?thesis
    proof (cases rule: handle_new_session_cases)
      case bad_url
      with assms(3) show ?thesis by (simp add: answer_def)
    next
      case (no_session url)
      with load_proxy_inv(2)[OF no_session(4) ok] new_session show ?thesis
        by (auto simp: may_forward_def then_error_def forward_def)
    next
      case (session url j)
      with load_proxy_inv(2)[OF session(4) ok] new_session show ?thesis
        by (auto simp: may_forward_def forward_def)
    qed
  next
    case (has_session eps v)
    from has_session(5) show ?thesis
    proof (cases rule: handle_session_cases)
      case (found e url)
      with load_proxy_inv(2)[OF found(3) ok] has_session show ?thesis
        by (auto simp: may_forward_def forward_def)
    qed (use assms(3) in \<open>simp_all add: answer_def\<close>)
  qed (use assms(3) in \<open>simp_all add: answer_def\<close>)
qed


text \<open>A small configuration with one host and two endpoints, and an upstream that opens a
  session on every request.\<close>

definition example_endpoints :: "endpoint list" where
  "example_endpoints =
     [\<lparr>Address = ''10.0.0.1'', Port = ''7001'', Target = None\<rparr>,
      \<lparr>Address = ''10.0.0.2'', Port = ''7003'', Target = None\<rparr>]"

definition example_config :: configuration where
  "example_config = \<lparr>
     Services = Some [Some \<lparr>
       cb_Backend = Some \<lparr>be_Name = ''default-wls-7001'', be_Service = None, be_Endpoints = Some example_endpoints\<rparr>,
       cb_Hostname = ''wls.example.com''\<rparr>],
     ControllerPodsCount = 0 \<rparr>"

definition example_env :: handler_env where
  "example_env = \<lparr>
     he_parseURL = (\<lambda>_. True),
     he_roundTrip = (\<lambda>_ _. Upstream [(''Set-Cookie'', [''JSESSIONID=abc; path=/''])] 200 ''hello'') \<rparr>"

definition example_request :: "string list \<Rightarrow> http_request" where
  "example_request cookies = \<lparr>req_Method = ''GET'', req_Host = ''wls.example.com:8080'',
     req_RequestURI = ''/console'', req_Cookie = cookies\<rparr>"

lemma example_new_session:
  "handleRootWLS example_env example_manager (InstallHandler (Some example_config)) []
      (example_request []) 1 =
   Inr (\<lparr>proxyMap = [(''10.0.0.2'', ''http://10.0.0.2:7003'')], targetConfig = Some example_config\<rparr>,
        [(''WLS-ING:abc'', ''10.0.0.2'', time_Hour)],
        \<lparr>oc_response = \<lparr>rw_header = [(''Set-Cookie'', [''JSESSIONID=abc; path=/''])],
            rw_status = Some 200, rw_body = [''hello'']\<rparr>,
         oc_Close = False, oc_forwarded = [''http://10.0.0.2:7003'']\<rparr>)"
  by code_simp

lemma forwarded_to_chosen_endpoint_witness:
  "\<exists>a port. [''http://10.0.0.2:7003''] = [upstream_url a port] \<and>
     may_forward example_manager (InstallHandler (Some example_config)) [] (example_request []) a"
  using forwarded_to_chosen_endpoint[OF rtranclp.rtrancl_refl example_new_session] by simp

lemma handleRootWLS_returns:
  assumes "handler_config_wf h" and "rand_in_range h r i" and "\<not> class_lookup r"
  shows "\<exists>h' w' oc. handleRootWLS env ls h w r i = Inr (h', w', oc)"
proof -
  obtain eps where eps: "handler_getEndpoints h (getHost r) = Inr eps"
    using handler_getEndpoints_wf[OF assms(1)] by blast
  have "\<exists>x. handleRootWLS env ls h w r i = Inr x"
  proof (cases eps)
    case None
    with eps assms(3) show ?thesis
      by (auto simp: handleRootWLS_def Let_def handle_unknown_host_def class_lookup_def)
  next
    case (Some es)
    with eps assms(2) have i: "es = [] \<or> i < length es" by (simp add: rand_in_range_def)
    then have "es \<noteq> [] \<Longrightarrow> \<exists>x. handle_new_session env ls h w r es i = Inr x"
      by (auto simp: handle_new_session_def go_index_def Let_def split: option.splits)
    with eps Some show ?thesis
      by (cases "request_Cookie r ''JSESSIONID''") (auto simp: handleRootWLS_def Let_def simp del: split_paired_Ex)
  qed
  then show ?thesis by auto
qed






text \<open>An answer without a session. When the upstream answers a request that carries no
  session and its header sets no JSESSIONID, no session is recorded, and the 500 that the
  handler writes then comes too late: the client keeps the status of the upstream and the
  error text is appended to its body.\<close>

lemma late_error_keeps_upstream_status:
  assumes "getHost r \<noteq> ''''" and "handler_getEndpoints h (getHost r) = Inr (Some eps)" and "i < length eps"
    and "request_Cookie r ''JSESSIONID'' = None"
    and "load_proxy env h (Address (eps ! i)) (upstream_url (Address (eps ! i)) (Port (eps ! i))) = Some (h', url)"
    and "he_roundTrip env url r = Upstream hdr st body" and "distinct (map fst hdr)"
    and "jsession_of (Header_Get hdr ''Set-Cookie'') = None"
  shows "\<exists>oc. handleRootWLS env ls h w r i = Inr (h', w, oc) \<and>
     rw_status (oc_response oc) = Some st \<and> rw_body (oc_response oc) = [body, ''URL Error'' @ [CHR 0x0A]]"
proof -
  have hd: "Header_Get (rw_header (oc_response (forward env r url))) ''Set-Cookie'' = Header_Get hdr ''Set-Cookie''"
    by (simp add: Header_Get_def forward_def assms(6) proxy_header_new[OF assms(7)])
  have "eps \<noteq> []" using assms(3) by auto
  then have "handleRootWLS env ls h w r i = Inr (h', w, then_error ''URL Error'' 500 (forward env r url))"
    using assms(1-5,8)
    by (simp add: handleRootWLS_def handle_new_session_def go_index_def Let_def hd)
  then show ?thesis
    by (simp add: then_error_def http_Error_written forward_def assms(6) proxy_ServeHTTP_new)
qed



end
