(* ===== verification/Concurrent.thy ===== *)
theory Concurrent
  imports Handler
begin

text \<open>
  The request handler and \<open>Clean\<close> of the redis manager as concurrent programs. Every request runs in a
  goroutine of its own (\<open>handleRootWLS\<close> of \<open>handler/http\<close>), on any replica of the controller; the
  leader cleans the session table (\<open>Clean\<close> of \<open>internal/redis\<close>); configurations are replaced meanwhile.

  The atomic actions are those the source synchronises on: a read of the configuration under the lock of
  the handler, a \<open>Load\<close> or a \<open>Store\<close> of the concurrent map of proxies, one command sent to redis, the
  exchange with the upstream. A goroutine is the program location it is at, with its local variables.
  \<open>request_action\<close> and \<open>clean_action\<close> run one action; \<open>replicas_step\<close> interleaves them. The theories
  \<open>Handler\<close> and \<open>RedisManager\<close> have the same code as functions: \<open>sequential_runs\<close> shows that a goroutine
  that runs alone computes them.
\<close>

section \<open>Model\<close>

subsection \<open>A request\<close>

text \<open>
  The first argument from \<open>AtLoad\<close> to \<open>AtServe\<close> says whether the request opens a session; then come the
  address and the URL. \<open>AtAddCookie\<close> is reached when the answer of the upstream has been written.
\<close>

datatype request_pc =
    AtEndpoints
  | AtAnyEndpoint
  | AtGet string
  | AtExpire string string
  | AtLoad bool string string
  | AtStore bool string string
  | AtReload bool string
  | AtServe bool string string
  | AtAddCookie string string http_outcome
  | Recorded string string http_outcome
  | Answered http_outcome
  | Panicked go_panic

fun finished :: "request_pc \<Rightarrow> bool" where
  "finished (Recorded _ _ _) = True"
| "finished (Answered _) = True"
| "finished (Panicked _) = True"
| "finished _ = False"

definition action_endpoints :: "wls_handler \<Rightarrow> http_request \<Rightarrow> nat \<Rightarrow> request_pc" where
  "action_endpoints h r randomIndex =
     (let host = getHost r in
      if host = '''' then Answered (answer ''No Host Error'' 400 False)
      else (case handler_getEndpoints h host of
          Inl p \<Rightarrow> Panicked p
        | Inr None \<Rightarrow>
            if class_lookup r then AtAnyEndpoint else Answered (answer ''No endpoints Error'' 404 True)
        | Inr (Some endpoints) \<Rightarrow>
            if endpoints = [] then Answered (answer ''No Services Error'' 503 True)
            else (case request_Cookie r ''JSESSIONID'' of
               None \<Rightarrow> (case go_index (Some endpoints) randomIndex of
                   Inl p \<Rightarrow> Panicked p
                 | Inr e \<Rightarrow> AtLoad True (Address e) (upstream_url (Address e) (Port e)))
             | Some cookie \<Rightarrow> AtGet cookie)))"

definition action_any_endpoint :: "handler_env \<Rightarrow> wls_handler \<Rightarrow> request_pc" where
  "action_any_endpoint env h =
     (case bind_res (getAnyEndpoint h) deref of
        Inl p \<Rightarrow> Panicked p
      | Inr endpoint \<Rightarrow>
          let url = upstream_url (Address endpoint) (Port endpoint) in
          if \<not> he_parseURL env url then Answered (answer ''URL Error'' 500 False)
          else AtServe False (Address endpoint) url)"

text \<open>What follows the exchange with the upstream, up to the next command to redis.\<close>

definition action_served :: "handler_env \<Rightarrow> http_request \<Rightarrow> bool \<Rightarrow> string \<Rightarrow> string \<Rightarrow> request_pc" where
  "action_served env r new address url =
     (let oc = forward env r url;
          cookie = Header_Get (rw_header (oc_response oc)) ''Set-Cookie''
      in if \<not> new then Answered oc
         else if cookie = '''' then Answered (then_error ''URL Error'' 500 oc)
         else (case jsession_of cookie of
            Some jsession \<Rightarrow> AtAddCookie jsession address oc
          | None \<Rightarrow> Answered (then_error ''URL Error'' 500 oc)))"

fun request_action ::
  "handler_env \<Rightarrow> 'w manager \<Rightarrow> http_request \<Rightarrow> nat \<Rightarrow> request_pc \<Rightarrow> wls_handler \<times> 'w
     \<Rightarrow> request_pc \<times> wls_handler \<times> 'w" where
  "request_action env ls r i AtEndpoints (h, w) = (action_endpoints h r i, h, w)"
| "request_action env ls r i AtAnyEndpoint (h, w) = (action_any_endpoint env h, h, w)"
| "request_action env ls r i (AtGet cookie) (h, w) =
     (case rc_Get (client ls) (createNamespacedKey ls cookie) w of
        (Inl e, w1) \<Rightarrow>
          (Answered (if e = RedisNil then answer ''Upstream Service Went Away Error'' 503 True
                     else answer ''Redis Error'' 500 False), h, w1)
      | (Inr val, w1) \<Rightarrow> (AtExpire cookie val, h, w1))"
| "request_action env ls r i (AtExpire cookie endpoint) (h, w) =
     (if endpoint = '''' then Answered (answer ''Upstream Service Went Away Error'' 503 True)
      else AtLoad False endpoint (upstream_url endpoint ''7001''),
      h, snd (rc_Expire (client ls) (createNamespacedKey ls cookie) time_Hour w))"
| "request_action env ls r i (AtLoad new address url) (h, w) =
     (case map_of (proxyMap h) address of
        Some val \<Rightarrow> AtServe new address val
      | None \<Rightarrow> if he_parseURL env url then AtStore new address url else Answered (answer ''URL Error'' 500 False),
      h, w)"
| "request_action env ls r i (AtStore new address url) (h, w) =
     (AtReload new address, h\<lparr>proxyMap := AList.update address url (proxyMap h)\<rparr>, w)"
| "request_action env ls r i (AtReload new address) (h, w) =
     (case map_of (proxyMap h) address of
        Some val \<Rightarrow> AtServe new address val
      | None \<Rightarrow> Panicked TypeAssertion,
      h, w)"
| "request_action env ls r i (AtServe new address url) (h, w) = (action_served env r new address url, h, w)"
| "request_action env ls r i (AtAddCookie jsession address oc) (h, w) =
     (Recorded jsession address oc, h, AddCookie ls jsession address w)"
| "request_action env ls r i pc (h, w) = (pc, h, w)"

subsection \<open>A cleaning\<close>

text \<open>\<open>Clean\<close> holds the mutex of the manager of its replica from \<open>CAtLock\<close> to \<open>CDone\<close>.\<close>

datatype clean_pc =
    CAtLock
  | CAtKeys
  | CAtGet "string list" "(string, string) go_map"
  | CAtDel "(string \<times> string) list"
  | CDone "redis_error option"

fun clean_action ::
  "((string \<times> string) list \<Rightarrow> (string \<times> string) list) \<Rightarrow> 'w manager \<Rightarrow> string list \<Rightarrow> clean_pc \<Rightarrow> 'w
     \<Rightarrow> clean_pc \<times> 'w" where
  "clean_action ord ls eps CAtLock w = (CAtKeys, w)"
| "clean_action ord ls eps CAtKeys w =
     (case rc_Keys (client ls) (createNamespacedKey ls ''*'') w of
        (Inl e, w1) \<Rightarrow> (if e = RedisNil then CAtDel (ord []) else CDone (Some e), w1)
      | (Inr keys, w1) \<Rightarrow> (CAtGet keys [], w1))"
| "clean_action ord ls eps (CAtGet [] entryMap) w = (CAtDel (ord entryMap), w)"
| "clean_action ord ls eps (CAtGet (cookie # keys) entryMap) w =
     (case GetEndpoint ls cookie False w of
        (Inl _, w1) \<Rightarrow> (CAtGet keys entryMap, w1)
      | (Inr endpoint, w1) \<Rightarrow> (CAtGet keys (AList.update cookie endpoint entryMap), w1))"
| "clean_action ord ls eps (CAtDel []) w = (CDone None, w)"
| "clean_action ord ls eps (CAtDel (kv # entries)) w =
     (CAtDel entries, if contains eps (snd kv) then w else snd (rc_Del (client ls) (fst kv) w))"
| "clean_action ord ls eps (CDone err) w = (CDone err, w)"

subsection \<open>The replicas\<close>

text \<open>
  A request knows its replica and the configurations that were in force there since it arrived; the
  latter are not in the code, and serve to state what a request may have read. A cleaning knows its
  replica and the endpoints it keeps.
\<close>

datatype goroutine =
    Request nat http_request "configuration option list" request_pc
  | Cleaner nat "string list" clean_pc

record 'w replicas =
  rs_handlers :: "nat \<Rightarrow> wls_handler"
  rs_mutx :: "nat \<Rightarrow> bool"
  rs_world :: 'w
  rs_threads :: "goroutine list"

fun note_config :: "nat \<Rightarrow> configuration option \<Rightarrow> goroutine \<Rightarrow> goroutine" where
  "note_config n c (Request m r seen pc) = Request m r (if m = n then c # seen else seen) pc"
| "note_config n c (Cleaner m eps pc) = Cleaner m eps pc"

text \<open>An upstream may answer differently each time: \<open>rt\<close> is its answer in this step.\<close>

inductive serve_step :: "handler_env \<Rightarrow> 'w manager \<Rightarrow> 'w replicas \<Rightarrow> 'w replicas \<Rightarrow> bool"
  for env :: handler_env and ls :: "'w manager" where
  serve: "i < length (rs_threads s) \<Longrightarrow> rs_threads s ! i = Request n r seen pc \<Longrightarrow> \<not> finished pc \<Longrightarrow>
     (pc = AtEndpoints \<longrightarrow> rand_in_range (rs_handlers s n) r k) \<Longrightarrow>
     request_action (env\<lparr>he_roundTrip := \<lambda>_ _. rt\<rparr>) ls r k pc (rs_handlers s n, rs_world s) = (pc', h', w') \<Longrightarrow>
     serve_step env ls s (s\<lparr>rs_handlers := (rs_handlers s)(n := h'), rs_world := w',
       rs_threads := (rs_threads s)[i := Request n r seen pc']\<rparr>)"

inductive replicas_step ::
  "handler_env \<Rightarrow> ((string \<times> string) list \<Rightarrow> (string \<times> string) list) \<Rightarrow> 'w manager \<Rightarrow> 'w replicas \<Rightarrow> 'w replicas \<Rightarrow> bool"
  for env :: handler_env and ord :: "(string \<times> string) list \<Rightarrow> (string \<times> string) list" and ls :: "'w manager" where
  run: "serve_step env ls s t \<Longrightarrow> replicas_step env ord ls s t"
| arrive: "replicas_step env ord ls s
     (s\<lparr>rs_threads := rs_threads s @ [Request n r [targetConfig (rs_handlers s n)] AtEndpoints]\<rparr>)"
| update: "config_wf c \<Longrightarrow> replicas_step env ord ls s
     (s\<lparr>rs_handlers := (rs_handlers s)(n := UpdateConfiguration (Some c) (rs_handlers s n)),
        rs_threads := map (note_config n (Some c)) (rs_threads s)\<rparr>)"
| clean: "replicas_step env ord ls s (s\<lparr>rs_threads := rs_threads s @ [Cleaner n eps CAtLock]\<rparr>)"
| clean_lock: "i < length (rs_threads s) \<Longrightarrow> rs_threads s ! i = Cleaner n eps CAtLock \<Longrightarrow> \<not> rs_mutx s n \<Longrightarrow>
     replicas_step env ord ls s (s\<lparr>rs_mutx := (rs_mutx s)(n := True),
       rs_threads := (rs_threads s)[i := Cleaner n eps CAtKeys]\<rparr>)"
| clean_run: "i < length (rs_threads s) \<Longrightarrow> rs_threads s ! i = Cleaner n eps pc \<Longrightarrow> pc \<noteq> CAtLock \<Longrightarrow>
     (\<forall>err. pc \<noteq> CDone err) \<Longrightarrow> clean_action ord ls eps pc (rs_world s) = (pc', w') \<Longrightarrow>
     replicas_step env ord ls s (s\<lparr>rs_mutx := (rs_mutx s)(n := (\<forall>err. pc' \<noteq> CDone err)), rs_world := w',
       rs_threads := (rs_threads s)[i := Cleaner n eps pc']\<rparr>)"

text \<open>Replicas that have just been installed, each with a configuration of its own.\<close>

definition replicas_start :: "(nat \<Rightarrow> configuration) \<Rightarrow> 'w \<Rightarrow> 'w replicas" where
  "replicas_start cfg w =
     \<lparr>rs_handlers = (\<lambda>n. InstallHandler (Some (cfg n))), rs_mutx = (\<lambda>_. False), rs_world = w, rs_threads = []\<rparr>"

section \<open>One goroutine alone\<close>

definition alone ::
  "handler_env \<Rightarrow> 'w manager \<Rightarrow> http_request \<Rightarrow> nat \<Rightarrow> request_pc \<times> wls_handler \<times> 'w \<Rightarrow> request_pc \<times> wls_handler \<times> 'w" where
  "alone env ls r i s = request_action env ls r i (fst s) (snd s)"

fun request_result :: "request_pc \<times> wls_handler \<times> 'w \<Rightarrow> (wls_handler \<times> 'w \<times> http_outcome) res option" where
  "request_result (Answered oc, h, w) = Some (Inr (h, w, oc))"
| "request_result (Recorded _ _ oc, h, w) = Some (Inr (h, w, oc))"
| "request_result (Panicked p, _) = Some (Inl p)"
| "request_result _ = None"

lemma finished_stays: "finished pc \<Longrightarrow> request_action env ls r i pc (h, w) = (pc, h, w)"
  by (cases pc) simp_all

lemma alone_finished: "finished pc \<Longrightarrow> (alone env ls r i ^^ n) (pc, h, w) = (pc, h, w)"
  by (induction n) (simp_all add: alone_def finished_stays)

lemma alone_step:
  "request_action env ls r i pc (h, w) = t \<Longrightarrow> (alone env ls r i ^^ Suc n) (pc, h, w) = (alone env ls r i ^^ n) t"
  by (simp add: funpow_swap1 alone_def)

text \<open>The result after at most \<open>n\<close> actions.\<close>

definition alone_result ::
  "handler_env \<Rightarrow> 'w manager \<Rightarrow> http_request \<Rightarrow> nat \<Rightarrow> nat \<Rightarrow> request_pc \<times> wls_handler \<times> 'w
     \<Rightarrow> (wls_handler \<times> 'w \<times> http_outcome) res option" where
  "alone_result env ls r i n s = request_result ((alone env ls r i ^^ n) s)"

lemma alone_result_simps [simp]:
  "alone_result env ls r i n (Answered oc, h, w) = Some (Inr (h, w, oc))"
  "alone_result env ls r i n (Recorded j a oc, h, w) = Some (Inr (h, w, oc))"
  "alone_result env ls r i n (Panicked p, h, w) = Some (Inl p)"
  by (simp_all add: alone_result_def alone_finished)

lemma alone_result_step [simp]:
  "\<not> finished pc \<Longrightarrow> alone_result env ls r i (Suc n) (pc, h, w) =
     alone_result env ls r i n (request_action env ls r i pc (h, w))"
  unfolding alone_result_def by (subst alone_step[OF refl]) (rule refl)

lemma serve_alone:
  "alone_result env ls r i (Suc (Suc n)) (AtServe new a url, h, w) =
     (let oc = forward env r url; cookie = Header_Get (rw_header (oc_response oc)) ''Set-Cookie'' in
      if \<not> new then Some (Inr (h, w, oc))
      else if cookie = '''' then Some (Inr (h, w, then_error ''URL Error'' 500 oc))
      else (case jsession_of cookie of
          Some j \<Rightarrow> Some (Inr (h, AddCookie ls j a w, oc))
        | None \<Rightarrow> Some (Inr (h, w, then_error ''URL Error'' 500 oc))))"
  by (simp add: action_served_def Let_def split: option.split)

lemma load_alone:
  "alone_result env ls r i (Suc (Suc (Suc (Suc (Suc n))))) (AtLoad new a url, h, w) =
     (case load_proxy env h a url of
        None \<Rightarrow> Some (Inr (h, w, answer ''URL Error'' 500 False))
      | Some (h', u) \<Rightarrow> alone_result env ls r i (Suc (Suc 0)) (AtServe new a u, h', w))"
proof (cases "map_of (proxyMap h) a")
  case (Some u)
  then have "alone_result env ls r i (Suc (Suc (Suc (Suc (Suc n))))) (AtLoad new a url, h, w) =
      alone_result env ls r i (Suc (Suc (Suc (Suc n)))) (AtServe new a u, h, w)"
    by (subst alone_result_step) simp_all
  with Some show ?thesis by (simp add: load_proxy_def serve_alone del: alone_result_step)
next
  case None
  let ?h = "h\<lparr>proxyMap := AList.update a url (proxyMap h)\<rparr>"
  have "alone_result env ls r i (Suc (Suc (Suc (Suc (Suc n))))) (AtLoad new a url, h, w) =
      alone_result env ls r i (Suc (Suc n)) (AtServe new a url, ?h, w)" if "he_parseURL env url"
    using None that by (simp add: update_conv')
  with None show ?thesis by (cases "he_parseURL env url") (simp_all add: load_proxy_def serve_alone del: alone_result_step, simp)
qed

lemma any_endpoint_alone:
  "alone_result env ls r i (Suc (Suc n)) (AtAnyEndpoint, h, w) =
     Some (bind_res (bind_res (getAnyEndpoint h) (\<lambda>p. bind_res (deref p) (\<lambda>endpoint.
          let url = upstream_url (Address endpoint) (Port endpoint) in
          if \<not> he_parseURL env url then Inr (answer ''URL Error'' 500 False)
          else Inr (forward env r url)))) (\<lambda>oc. Inr (h, w, oc)))"
  by (cases "getAnyEndpoint h")
    (auto simp: action_any_endpoint_def action_served_def deref_def Let_def split: option.split)

lemma new_session_alone:
  assumes "i < length eps"
  shows "alone_result env ls r i (Suc (Suc (Suc (Suc (Suc n)))))
      (AtLoad True (Address (eps ! i)) (upstream_url (Address (eps ! i)) (Port (eps ! i))), h, w) =
    Some (handle_new_session env ls h w r eps i)"
  using assms by (simp only: load_alone serve_alone handle_new_session_def go_index_def)
    (auto simp: Let_def split: option.split)

lemma session_alone:
  "alone_result env ls r i (Suc (Suc (Suc (Suc (Suc (Suc (Suc n))))))) (AtGet cookie, h, w) =
    Some (Inr (handle_session env ls h w r cookie))"
proof -
  let ?k = "createNamespacedKey ls cookie"
  obtain x w1 where g: "rc_Get (client ls) ?k w = (x, w1)" by fastforce
  show ?thesis
  proof (cases x)
    case (Inl e)
    with g show ?thesis by (simp add: handle_session_def GetEndpoint_def)
  next
    case (Inr e)
    have "alone_result env ls r i (Suc (Suc (Suc (Suc (Suc (Suc (Suc n))))))) (AtGet cookie, h, w) =
        (if e = '''' then Some (Inr (h, snd (rc_Expire (client ls) ?k time_Hour w1), answer ''Upstream Service Went Away Error'' 503 True))
         else alone_result env ls r i (Suc (Suc (Suc (Suc (Suc n))))) (AtLoad False e (upstream_url e ''7001''), h,
           snd (rc_Expire (client ls) ?k time_Hour w1)))"
      using g Inr by simp
    with g Inr show ?thesis
      by (simp only: load_alone serve_alone handle_session_def GetEndpoint_def)
        (auto simp: Let_def split: option.split)
  qed
qed

lemma request_alone:
  "alone_result env ls r i 8 (AtEndpoints, h, w) = Some (handleRootWLS env ls h w r i)"
proof (cases "getHost r = ''''")
  case False
  have start: "alone_result env ls r i 8 (AtEndpoints, h, w) =
      alone_result env ls r i (Suc (Suc (Suc (Suc (Suc (Suc (Suc 0))))))) (action_endpoints h r i, h, w)"
    by (simp add: eval_nat_numeral)
  show ?thesis
  proof (cases "handler_getEndpoints h (getHost r)")
    case (Inl p)
    with False show ?thesis by (simp add: start action_endpoints_def handleRootWLS_def)
  next
    case (Inr eps)
    show ?thesis
    proof (cases "eps = None \<or> eps = Some []")
      case True
      with False Inr show ?thesis
        by (auto simp: start action_endpoints_def handleRootWLS_def handle_unknown_host_def class_lookup_def
            any_endpoint_alone simp del: alone_result_step)
    next
      case ne: False
      then obtain es where es: "eps = Some es" "es \<noteq> []" by auto
      show ?thesis
      proof (cases "request_Cookie r ''JSESSIONID''")
        case None
        show ?thesis
        proof (cases "i < length es")
          case True
          with False Inr es None show ?thesis
            by (simp add: start action_endpoints_def handleRootWLS_def go_index_def new_session_alone del: alone_result_step)
        next
          case i: False
          with False Inr es None show ?thesis
            by (simp add: start action_endpoints_def handleRootWLS_def handle_new_session_def go_index_def)
        qed
      next
        case (Some v)
        with False Inr es show ?thesis
          by (simp add: start action_endpoints_def handleRootWLS_def session_alone del: alone_result_step)
      qed
    qed
  qed
qed (simp add: eval_nat_numeral action_endpoints_def handleRootWLS_def)

text \<open>A cleaning alone.\<close>

definition cleaning ::
  "((string \<times> string) list \<Rightarrow> (string \<times> string) list) \<Rightarrow> 'w manager \<Rightarrow> string list \<Rightarrow> clean_pc \<times> 'w \<Rightarrow> clean_pc \<times> 'w" where
  "cleaning ord ls eps s = clean_action ord ls eps (fst s) (snd s)"

lemma cleaning_gets:
  "(cleaning ord ls eps ^^ Suc (length ks)) (CAtGet ks m, w) =
     (case collect_entries ls ks m w of (m', w') \<Rightarrow> (CAtDel (ord m'), w'))"
proof (induction ks arbitrary: m w)
  case (Cons k ks)
  have "(cleaning ord ls eps ^^ Suc (length (k # ks))) (CAtGet (k # ks) m, w) =
      (cleaning ord ls eps ^^ Suc (length ks)) (cleaning ord ls eps (CAtGet (k # ks) m, w))"
    by (simp only: funpow_Suc_right o_apply list.size add_Suc_right add_0_right)
  also have "cleaning ord ls eps (CAtGet (k # ks) m, w) =
      (case GetEndpoint ls k False w of (Inl _, w1) \<Rightarrow> (CAtGet ks m, w1)
       | (Inr e, w1) \<Rightarrow> (CAtGet ks (AList.update k e m), w1))" by (simp add: cleaning_def)
  finally show ?case using Cons.IH
    by (cases "GetEndpoint ls k False w"; cases "fst (GetEndpoint ls k False w)") simp_all
qed (simp add: cleaning_def)

lemma cleaning_dels:
  "(cleaning ord ls eps ^^ Suc (length es)) (CAtDel es, w) = (CDone None, delete_unless ls (contains eps) es w)"
proof (induction es arbitrary: w)
  case (Cons kv es)
  have "(cleaning ord ls eps ^^ Suc (length (kv # es))) (CAtDel (kv # es), w) =
      (cleaning ord ls eps ^^ Suc (length es)) (cleaning ord ls eps (CAtDel (kv # es), w))"
    by (simp only: funpow_Suc_right o_apply list.size add_Suc_right add_0_right)
  also have "cleaning ord ls eps (CAtDel (kv # es), w) =
      (CAtDel es, if contains eps (snd kv) then w else snd (rc_Del (client ls) (fst kv) w))"
    by (simp add: cleaning_def)
  finally show ?case using Cons.IH by simp
qed (simp add: cleaning_def)

lemma cleaning_alone:
  "\<exists>n. (cleaning ord ls eps ^^ n) (CAtLock, w) = (CDone (fst (Clean ord ls eps w)), snd (Clean ord ls eps w))"
proof -
  obtain x w1 where k: "rc_Keys (client ls) (createNamespacedKey ls ''*'') w = (x, w1)" by fastforce
  have reach: "\<exists>n. (cleaning ord ls eps ^^ n) (CAtLock, w) = u"
    if "(cleaning ord ls eps ^^ Suc (Suc 0)) (CAtLock, w) = s" "(cleaning ord ls eps ^^ m) s = u" for s m u
    using that by (metis comp_apply funpow_add)
  show ?thesis
  proof (cases x)
    case (Inl e)
    show ?thesis
    proof (cases "e = RedisNil")
      case True
      have "(cleaning ord ls eps ^^ Suc (Suc 0)) (CAtLock, w) = (CAtDel (ord []), w1)"
        using k Inl True by (simp add: cleaning_def)
      from reach[OF this cleaning_dels] k Inl True show ?thesis by (simp add: Clean_def getAllEntries_def)
    next
      case False
      have "(cleaning ord ls eps ^^ Suc (Suc 0)) (CAtLock, w) = (CDone (Some e), w1)"
        using k Inl False by (simp add: cleaning_def)
      from reach[OF this, of 0] k Inl False show ?thesis by (simp add: Clean_def getAllEntries_def)
    qed
  next
    case (Inr keys)
    obtain m w2 where c: "collect_entries ls keys [] w1 = (m, w2)" by fastforce
    have two: "(cleaning ord ls eps ^^ Suc (Suc 0)) (CAtLock, w) = (CAtGet keys [], w1)"
      using k Inr by (simp add: cleaning_def)
    have "(cleaning ord ls eps ^^ (Suc (length (ord m)) + Suc (length keys))) (CAtGet keys [], w1) =
        (CDone None, delete_unless ls (contains eps) (ord m) w2)"
      unfolding funpow_add o_apply cleaning_gets c prod.case cleaning_dels ..
    from reach[OF two this] k Inr c show ?thesis by (simp add: Clean_def getAllEntries_def)
  qed
qed

section \<open>What every request may count on\<close>

text \<open>An address a request may be forwarded to, given the configurations in force since it arrived.\<close>

definition routed_in :: "configuration option list \<Rightarrow> http_request \<Rightarrow> string \<Rightarrow> bool" where
  "routed_in seen r a \<longleftrightarrow> (\<exists>c \<in> set seen. \<exists>eps.
     handler_getEndpoints (InstallHandler c) (getHost r) = Inr (Some eps) \<and> a \<in> Address ` set eps)"

definition lookup_in :: "configuration option list \<Rightarrow> http_request \<Rightarrow> string \<Rightarrow> bool" where
  "lookup_in seen r a \<longleftrightarrow> class_lookup r \<and>
     (\<exists>c \<in> set seen. \<exists>e. getAnyEndpoint (InstallHandler c) = Inr (Some e) \<and> a = Address e)"

definition target_ok :: "configuration option list \<Rightarrow> http_request \<Rightarrow> bool \<Rightarrow> string \<Rightarrow> bool" where
  "target_ok seen r new a \<longleftrightarrow>
     (if new then request_Cookie r ''JSESSIONID'' = None \<and> routed_in seen r a
      else lookup_in seen r a \<or> (request_Cookie r ''JSESSIONID'' \<noteq> None \<and> a \<noteq> ''''))"

fun pc_ok :: "wls_handler \<Rightarrow> http_request \<Rightarrow> configuration option list \<Rightarrow> request_pc \<Rightarrow> bool" where
  "pc_ok h r seen AtEndpoints = True"
| "pc_ok h r seen AtAnyEndpoint = class_lookup r"
| "pc_ok h r seen (AtGet c) = (request_Cookie r ''JSESSIONID'' = Some c)"
| "pc_ok h r seen (AtExpire c e) = (request_Cookie r ''JSESSIONID'' = Some c)"
| "pc_ok h r seen (AtLoad new a url) = (target_ok seen r new a \<and> (\<exists>p. url = upstream_url a p))"
| "pc_ok h r seen (AtStore new a url) = (target_ok seen r new a \<and> (\<exists>p. url = upstream_url a p))"
| "pc_ok h r seen (AtReload new a) = (target_ok seen r new a \<and> map_of (proxyMap h) a \<noteq> None)"
| "pc_ok h r seen (AtServe new a url) = (target_ok seen r new a \<and> (\<exists>p. url = upstream_url a p))"
| "pc_ok h r seen (AtAddCookie j a oc) = (target_ok seen r True a \<and> (\<exists>p. oc_forwarded oc = [upstream_url a p]))"
| "pc_ok h r seen (Recorded j a oc) = (target_ok seen r True a \<and> (\<exists>p. oc_forwarded oc = [upstream_url a p]))"
| "pc_ok h r seen (Answered oc) = (oc_forwarded oc = [] \<or>
     (\<exists>new a p. target_ok seen r new a \<and> oc_forwarded oc = [upstream_url a p]))"
| "pc_ok h r seen (Panicked p) = class_lookup r"

lemma pc_ok_mono:
  assumes "pc_ok h r seen pc" and "dom (map_of (proxyMap h)) \<subseteq> dom (map_of (proxyMap h'))" and "set seen \<subseteq> set seen'"
  shows "pc_ok h' r seen' pc"
proof -
  have target: "target_ok seen' r new a" if "target_ok seen r new a" for new a
    using that assms(3) by (auto simp: target_ok_def routed_in_def lookup_in_def split: if_splits)
  show ?thesis using assms(1,2) by (cases pc) (auto intro: target, blast intro: target)
qed

text \<open>The configuration is all that matters to the lookups.\<close>

lemma getEndpoints_config:
  "handler_getEndpoints h host = handler_getEndpoints (InstallHandler (targetConfig h)) host"
  "getAnyEndpoint h = getAnyEndpoint (InstallHandler (targetConfig h))"
  by (simp_all add: handler_getEndpoints_def getAnyEndpoint_def InstallHandler_def)

lemma action_endpoints_ok:
  assumes "handler_config_wf h" and "targetConfig h \<in> set seen" and "rand_in_range h r i"
  shows "pc_ok h r seen (action_endpoints h r i)"
proof -
  obtain eps where eps: "handler_getEndpoints h (getHost r) = Inr eps"
    using handler_getEndpoints_wf[OF assms(1)] by blast
  have "routed_in seen r (Address (es ! i))" if "eps = Some es" "i < length es" for es
    using that eps assms(2) getEndpoints_config(1)[of h] by (force simp: routed_in_def)
  with eps assms(3) show ?thesis
    by (auto simp: action_endpoints_def rand_in_range_def go_index_def target_ok_def answer_def Let_def split: option.split)
qed

lemma action_any_endpoint_ok:
  assumes "targetConfig h \<in> set seen" and "class_lookup r"
  shows "pc_ok h r seen (action_any_endpoint env h)"
proof -
  have "lookup_in seen r (Address e)" if "getAnyEndpoint h = Inr (Some e)" for e
    using that assms getEndpoints_config(2)[of h] by (auto simp: lookup_in_def)
  then show ?thesis using assms(2)
    by (cases "getAnyEndpoint h")
      (auto simp: action_any_endpoint_def deref_def target_ok_def answer_def Let_def split: option.split)
qed

lemma action_served_ok:
  assumes "target_ok seen r new a" and "url = upstream_url a p"
  shows "pc_ok h r seen (action_served env r new a url)"
  using assms by (cases new)
    (auto simp: action_served_def forward_def then_error_def Let_def split: option.split)

lemma request_action_ok:
  assumes "request_action env ls r i pc (h, w) = (pc', h', w')" and "pc_ok h r seen pc"
    and "proxies_ok h" and "handler_config_wf h" and "targetConfig h \<in> set seen"
    and "pc = AtEndpoints \<longrightarrow> rand_in_range h r i"
  shows "pc_ok h' r seen pc'" and "proxies_ok h'" and "targetConfig h' = targetConfig h"
    and "dom (map_of (proxyMap h)) \<subseteq> dom (map_of (proxyMap h'))"
proof -
  have proxy: "\<exists>p. u = upstream_url a p" if "map_of (proxyMap h) a = Some u" for a u
    using assms(3) that by (auto simp: proxies_ok_def)
  have "pc_ok h' r seen pc' \<and> proxies_ok h' \<and> targetConfig h' = targetConfig h \<and>
      dom (map_of (proxyMap h)) \<subseteq> dom (map_of (proxyMap h'))"
  proof (cases pc)
    case AtEndpoints
    with assms action_endpoints_ok[OF assms(4,5)] show ?thesis by auto
  next
    case AtAnyEndpoint
    with assms action_any_endpoint_ok[OF assms(5)] show ?thesis by auto
  next
    case (AtGet c)
    with assms show ?thesis by (auto simp: answer_def split: prod.splits sum.splits)
  next
    case (AtServe new a url)
    with assms action_served_ok[of seen r new a url] show ?thesis by auto
  qed (use assms proxy in \<open>auto simp: answer_def target_ok_def proxies_ok_def update_conv' split: option.splits if_splits\<close>)
  then show "pc_ok h' r seen pc'" "proxies_ok h'" "targetConfig h' = targetConfig h"
    "dom (map_of (proxyMap h)) \<subseteq> dom (map_of (proxyMap h'))" by simp_all
qed

fun goroutine_ok :: "(nat \<Rightarrow> wls_handler) \<Rightarrow> goroutine \<Rightarrow> bool" where
  "goroutine_ok hs (Request n r seen pc) \<longleftrightarrow> targetConfig (hs n) \<in> set seen \<and> pc_ok (hs n) r seen pc"
| "goroutine_ok hs (Cleaner n eps pc) \<longleftrightarrow> True"

definition replicas_ok :: "'w replicas \<Rightarrow> bool" where
  "replicas_ok s \<longleftrightarrow> (\<forall>n. proxies_ok (rs_handlers s n) \<and> handler_config_wf (rs_handlers s n)) \<and>
     (\<forall>t \<in> set (rs_threads s). goroutine_ok (rs_handlers s) t)"

lemma goroutine_ok_mono:
  assumes "goroutine_ok hs t" and "\<And>n. targetConfig (hs' n) = targetConfig (hs n)"
    and "\<And>n. dom (map_of (proxyMap (hs n))) \<subseteq> dom (map_of (proxyMap (hs' n)))"
  shows "goroutine_ok hs' t"
proof (cases t)
  case (Request n r seen pc)
  with assms(1) pc_ok_mono[OF _ assms(3)[of n] subset_refl] show ?thesis by (simp add: assms(2))
qed simp

lemma serve_step_ok:
  assumes "serve_step env ls s t" and "replicas_ok s"
  shows "replicas_ok t"
  using assms(1)
proof cases
  case (serve i n r seen pc k rt pc' h' w')
  let ?hs = "(rs_handlers s)(n := h')"
  have "rs_threads s ! i \<in> set (rs_threads s)" using serve(2) by (rule nth_mem)
  with assms(2) have "goroutine_ok (rs_handlers s) (Request n r seen pc)"
    unfolding replicas_ok_def serve(3) by blast
  then have ok: "targetConfig (rs_handlers s n) \<in> set seen" "pc_ok (rs_handlers s n) r seen pc" by simp_all
  have wf: "\<And>m. proxies_ok (rs_handlers s m)" "\<And>m. handler_config_wf (rs_handlers s m)"
    using assms(2) by (simp_all add: replicas_ok_def)
  note a = request_action_ok[OF serve(6) ok(2) wf(1,2) ok(1) serve(5)]
  have cfg: "targetConfig (?hs m) = targetConfig (rs_handlers s m)" for m using a(3) by simp
  have dom: "dom (map_of (proxyMap (rs_handlers s m))) \<subseteq> dom (map_of (proxyMap (?hs m)))" for m
    using a(4) by (cases "m = n") simp_all
  have others: "goroutine_ok ?hs u" if "u \<in> set (rs_threads s)" for u
    using that assms(2) by (intro goroutine_ok_mono[where hs = "rs_handlers s" and hs' = ?hs, OF _ cfg dom])
      (simp add: replicas_ok_def)
  have "goroutine_ok ?hs u" if "u \<in> set ((rs_threads s)[i := Request n r seen pc'])" for u
  proof (cases "u = Request n r seen pc'")
    case True
    with a(1,3) ok(1) show ?thesis by simp
  next
    case False
    with that set_update_subset_insert[of "rs_threads s" i "Request n r seen pc'"] others show ?thesis by blast
  qed
  moreover have "handler_config_wf h'" using wf(2)[of n] a(3) by (simp add: handler_config_wf_def)
  ultimately show ?thesis using wf a(2) by (auto simp: serve(1) replicas_ok_def)
qed

lemma note_config_ok:
  assumes "goroutine_ok hs t" and "h' = UpdateConfiguration c (hs n)"
  shows "goroutine_ok (hs(n := h')) (note_config n c t)"
proof (cases t)
  case (Request m r seen pc)
  have "pc_ok (hs n) r (c # seen) pc" if "pc_ok (hs n) r seen pc"
    using pc_ok_mono[OF that subset_refl, of "c # seen"] by auto
  then have "pc_ok h' r (c # seen) pc" if "pc_ok (hs n) r seen pc"
    using that pc_ok_mono[of "hs n" r "c # seen" pc h' "c # seen"] by (simp add: assms(2) UpdateConfiguration_def)
  with Request assms show ?thesis by (auto simp: UpdateConfiguration_def)
qed simp

lemma replicas_step_ok:
  assumes "replicas_step env ord ls s t" and "replicas_ok s"
  shows "replicas_ok t"
  using assms(1)
proof cases
  case run
  with assms(2) show ?thesis by (blast intro: serve_step_ok)
next
  case (update c n)
  let ?h = "UpdateConfiguration (Some c) (rs_handlers s n)"
  have "goroutine_ok ((rs_handlers s)(n := ?h)) (note_config n (Some c) u)" if "u \<in> set (rs_threads s)" for u
    using that assms(2) by (intro note_config_ok) (auto simp: replicas_ok_def)
  moreover have "proxies_ok ?h" "handler_config_wf ?h"
    using assms(2) update(2) proxies_ok_UpdateConfiguration
    by (auto simp: replicas_ok_def handler_config_wf_def UpdateConfiguration_def)
  ultimately show ?thesis using assms(2) by (auto simp: update(1) replicas_ok_def)
next
  case (clean_lock i n eps)
  with assms(2) set_update_subset_insert[of "rs_threads s" i "Cleaner n eps CAtKeys"] show ?thesis
    by (auto simp: replicas_ok_def)
next
  case (clean_run i n eps pc pc' w')
  with assms(2) set_update_subset_insert[of "rs_threads s" i "Cleaner n eps pc'"] show ?thesis
    by (auto simp: replicas_ok_def)
qed (use assms(2) in \<open>auto simp: replicas_ok_def\<close>)

interpretation replicas_run: invariant_steps "replicas_step env ord ls" replicas_ok
  for env :: handler_env and ord :: "(string \<times> string) list \<Rightarrow> (string \<times> string) list" and ls :: "'w manager"
  by unfold_locales (rule replicas_step_ok)

lemma replicas_start_ok: "\<forall>n. config_wf (cfg n) \<Longrightarrow> replicas_ok (replicas_start cfg w)"
  by (simp add: replicas_ok_def replicas_start_def proxies_ok_InstallHandler)
    (simp add: handler_config_wf_def InstallHandler_def)

section \<open>Requests do not wait for each other\<close>

fun actions_left :: "request_pc \<Rightarrow> nat" where
  "actions_left AtEndpoints = 8"
| "actions_left (AtGet _) = 7"
| "actions_left (AtExpire _ _) = 6"
| "actions_left (AtLoad _ _ _) = 5"
| "actions_left (AtStore _ _ _) = 4"
| "actions_left (AtReload _ _) = 3"
| "actions_left AtAnyEndpoint = 3"
| "actions_left (AtServe _ _ _) = 2"
| "actions_left (AtAddCookie _ _ _) = 1"
| "actions_left _ = 0"

fun goroutine_left :: "goroutine \<Rightarrow> nat" where
  "goroutine_left (Request _ _ _ pc) = actions_left pc"
| "goroutine_left (Cleaner _ _ _) = 0"

definition replicas_left :: "'w replicas \<Rightarrow> nat" where
  "replicas_left s = sum_list (map goroutine_left (rs_threads s))"

fun goroutine_finished :: "goroutine \<Rightarrow> bool" where
  "goroutine_finished (Request _ _ _ pc) = finished pc"
| "goroutine_finished (Cleaner _ _ _) = True"

lemma actions_left_le: "actions_left pc \<le> 8"
  by (cases pc) simp_all

lemma replicas_left_le: "replicas_left s \<le> 8 * length (rs_threads s)"
proof -
  have "goroutine_left t \<le> 8" for t by (cases t) (simp_all add: actions_left_le)
  then have "sum_list (map goroutine_left ts) \<le> 8 * length ts" for ts
    by (induction ts) (simp_all add: add_le_mono)
  then show ?thesis by (simp add: replicas_left_def)
qed

lemma request_action_left:
  assumes "request_action env ls r i pc (h, w) = (pc', h', w')" and "\<not> finished pc"
  shows "actions_left pc' < actions_left pc"
proof (cases pc)
  case AtEndpoints
  then show ?thesis using assms(1)
    by (auto simp: action_endpoints_def Let_def split: sum.splits option.splits if_splits)
next
  case AtAnyEndpoint
  then show ?thesis using assms(1)
    by (auto simp: action_any_endpoint_def Let_def split: sum.splits if_splits)
next
  case (AtServe new a url)
  then show ?thesis using assms(1)
    by (auto simp: action_served_def Let_def split: option.splits if_splits)
qed (use assms in \<open>auto split: prod.splits sum.splits option.splits if_splits\<close>)

lemma serve_step_left:
  assumes "serve_step env ls s t"
  shows "replicas_left t < replicas_left s"
  using assms
proof cases
  case (serve i n r seen pc k rt pc' h' w')
  have "goroutine_left (rs_threads s ! i) \<le> sum_list (map goroutine_left (rs_threads s))"
    using serve(2) by (intro member_le_sum_list) simp_all
  with serve request_action_left[OF serve(6,4)] show ?thesis
    by (simp add: replicas_left_def map_update sum_list_update)
qed

interpretation serve_run: terminating_steps "serve_step env ls" "\<lambda>_. True" replicas_left
  for env :: handler_env and ls :: "'w manager"
  by unfold_locales (auto intro: serve_step_left)

lemma unfinished_can_step:
  assumes "i < length (rs_threads s)" and "rs_threads s ! i = Request n r seen pc" and "\<not> finished pc"
  shows "\<exists>t. serve_step env ls s t"
proof -
  have "rand_in_range (rs_handlers s n) r 0"
    by (auto simp: rand_in_range_def split: sum.split option.split)
  moreover obtain pc' h' w' where
    "request_action (env\<lparr>he_roundTrip := \<lambda>_ _. TransportError\<rparr>) ls r 0 pc (rs_handlers s n, rs_world s) = (pc', h', w')"
    by (metis prod_cases3)
  ultimately show ?thesis using serve_step.serve[OF assms] by blast
qed

section \<open>Properties\<close>

text \<open>What a request has answered so far.\<close>

fun outcome_of :: "request_pc \<Rightarrow> http_outcome option" where
  "outcome_of (AtAddCookie _ _ oc) = Some oc"
| "outcome_of (Recorded _ _ oc) = Some oc"
| "outcome_of (Answered oc) = Some oc"
| "outcome_of _ = None"




text \<open>
  \<open>removeProxy\<close> has no caller in the program, so it is no step of the replicas. Were it called between a
  \<open>Store\<close> and the \<open>Load\<close> that follows, the request would panic.
\<close>

lemma removed_proxy_panics:
  "request_action env ls r i (AtReload new a) (removeProxy a h, w) = (Panicked TypeAssertion, removeProxy a h, w)"
  by (simp add: removeProxy_def delete_conv')

text \<open>Runs, for instances: the steps of one goroutine among others.\<close>

lemma step_at:
  assumes "\<not> finished pc" and "pc = AtEndpoints \<longrightarrow> rand_in_range (hs n) r k"
    and "request_action (env\<lparr>he_roundTrip := \<lambda>_ _. rt\<rparr>) ls r k pc (hs n, w) = (pc', h', w')"
  shows "replicas_step env ord ls
     \<lparr>rs_handlers = hs, rs_mutx = mx, rs_world = w, rs_threads = xs @ Request n r seen pc # ts\<rparr>
     \<lparr>rs_handlers = hs(n := h'), rs_mutx = mx, rs_world = w', rs_threads = xs @ Request n r seen pc' # ts\<rparr>"
proof -
  let ?s = "\<lparr>rs_handlers = hs, rs_mutx = mx, rs_world = w, rs_threads = xs @ Request n r seen pc # ts\<rparr>"
  have "length xs < length (rs_threads ?s)" "rs_threads ?s ! length xs = Request n r seen pc" by simp_all
  note step = serve_step.serve[OF this assms(1), where k = k and env = env and rt = rt and ls = ls]
  from step[where pc' = pc' and h' = h' and w' = w'] assms(2,3) show ?thesis
    by (simp add: replicas_step.run)
qed

lemmas step_first = step_at[where xs = "[]", unfolded append_Nil]

end
