(* ===== verification/ConcurrentSessions.thy ===== *)
theory ConcurrentSessions
  imports Concurrent
begin

text \<open>
  Sessions under concurrency: what a request that carries a session meets while other requests, updates
  of the configuration and cleanings of the session table run on any number of replicas, interleaved at
  the commands they send to redis.

  Before a session is recorded no cleaning can know its key (\<open>key_fresh\<close>); afterwards a cleaning that
  keeps its endpoint can only have read that endpoint for it (\<open>held\<close>). So a recorded session is never
  lost (\<open>concurrent_session_affinity\<close>). A session that the client has got, but that is not recorded yet,
  is refused (\<open>unrecorded_session_refused\<close>).
\<close>

section \<open>Goroutines over time\<close>

text \<open>How a goroutine may have gone on; goroutines are never removed.\<close>

fun evolves :: "goroutine \<Rightarrow> goroutine \<Rightarrow> bool" where
  "evolves (Request n r seen pc) (Request n' r' seen' pc') \<longleftrightarrow> n' = n \<and> r' = r \<and> (finished pc \<longrightarrow> pc' = pc) \<and>
     (\<forall>j a oc. pc = AtAddCookie j a oc \<longrightarrow> pc' = pc \<or> pc' = Recorded j a oc)"
| "evolves (Cleaner n eps pc) (Cleaner n' eps' pc') \<longleftrightarrow> n' = n \<and> eps' = eps \<and> (\<forall>err. pc = CDone err \<longrightarrow> pc' = pc)"
| "evolves _ _ \<longleftrightarrow> False"

lemma evolves_refl [simp]: "evolves x x"
  by (cases x) simp_all

lemma evolves_trans: "evolves x y \<Longrightarrow> evolves y z \<Longrightarrow> evolves x z"
  by (cases x; cases y; cases z) auto

lemma evolves_note [simp]: "evolves x (note_config n c x)"
  by (cases x) simp_all

definition threads_evolve :: "goroutine list \<Rightarrow> goroutine list \<Rightarrow> bool" where
  "threads_evolve xs ys \<longleftrightarrow> length xs \<le> length ys \<and> (\<forall>i < length xs. evolves (xs ! i) (ys ! i))"

lemma threads_evolve_update:
  "i < length xs \<Longrightarrow> evolves (xs ! i) y \<Longrightarrow> threads_evolve xs (xs[i := y])"
  by (simp add: threads_evolve_def nth_list_update)

lemma threads_evolve_append: "threads_evolve xs (xs @ ys)"
  by (simp add: threads_evolve_def nth_append)

lemma threads_evolve_trans: "threads_evolve xs ys \<Longrightarrow> threads_evolve ys zs \<Longrightarrow> threads_evolve xs zs"
  unfolding threads_evolve_def by (meson evolves_trans order_less_le_trans order_trans)

lemma request_evolves:
  assumes "request_action env ls r i pc (h, w) = (pc', h', w')" and "\<not> finished pc"
  shows "evolves (Request n r seen pc) (Request n r seen pc')"
  using assms by auto

lemma step_evolves:
  assumes "replicas_step env ord ls s t"
  shows "threads_evolve (rs_threads s) (rs_threads t)"
  using assms
proof cases
  case run
  then show ?thesis
  proof cases
    case (serve i n r seen pc k rt pc' h' w')
    with request_evolves[OF serve(6,4)] show ?thesis by (simp add: threads_evolve_update del: evolves.simps)
  qed
next
  case (update c n)
  then show ?thesis by (simp add: threads_evolve_def)
qed (auto simp: threads_evolve_append intro!: threads_evolve_update)

lemma steps_evolve: "(replicas_step env ord ls)\<^sup>*\<^sup>* s t \<Longrightarrow> threads_evolve (rs_threads s) (rs_threads t)"
  by (induction rule: rtranclp_induct)
    (auto intro: threads_evolve_trans step_evolves simp: threads_evolve_append[of _ "[]", simplified])

text \<open>A request that has opened, or is about to record, a session under a key of redis.\<close>

fun opens_key :: "'w manager \<Rightarrow> string \<Rightarrow> goroutine \<Rightarrow> bool" where
  "opens_key ls k (Request _ _ _ (AtAddCookie j _ _)) = (createNamespacedKey ls j = k)"
| "opens_key ls k (Request _ _ _ (Recorded j _ _)) = (createNamespacedKey ls j = k)"
| "opens_key ls k _ = False"

fun recorded_key :: "'w manager \<Rightarrow> string \<Rightarrow> goroutine \<Rightarrow> bool" where
  "recorded_key ls k (Request _ _ _ (Recorded j _ _)) = (createNamespacedKey ls j = k)"
| "recorded_key ls k _ = False"

lemma evolves_opens: "evolves x y \<Longrightarrow> opens_key ls k x \<Longrightarrow> opens_key ls k y"
  by (cases "(ls, k, x)" rule: opens_key.cases; cases y) auto

lemma evolves_recorded: "evolves x y \<Longrightarrow> recorded_key ls k x \<Longrightarrow> recorded_key ls k y"
  by (cases "(ls, k, x)" rule: recorded_key.cases; cases y) auto

lemma step_recorded:
  assumes "replicas_step env ord ls s t" and "\<exists>x \<in> set (rs_threads s). recorded_key ls k x"
  shows "\<exists>x \<in> set (rs_threads t). recorded_key ls k x"
  using step_evolves[OF assms(1)] assms(2) evolves_recorded
  by (metis in_set_conv_nth order_less_le_trans threads_evolve_def)

section \<open>Commands on one key\<close>

text \<open>The value under a key, without its time to live.\<close>

definition value_at :: "('w \<Rightarrow> string \<Rightarrow> (string \<times> int) option) \<Rightarrow> string \<Rightarrow> 'w \<Rightarrow> string option" where
  "value_at view k w = map_option fst (view w k)"

lemma value_at_Get:
  assumes "redis_laws (client ls) view"
  shows "value_at view k (snd (rc_Get (client ls) c w)) = value_at view k w"
    and "rc_Get (client ls) k w = (x, w1) \<Longrightarrow> x = (case value_at view k w of None \<Rightarrow> Inl RedisNil | Some v \<Rightarrow> Inr v)"
    and "value_at view k (snd (GetEndpoint ls c False w)) = value_at view k w"
    and "fst (GetEndpoint ls c False w) = Inr (redis_value (view w (createNamespacedKey ls c)))"
  using law_Get[OF assms, of k w]
  by (auto simp: value_at_def law_Get_view[OF assms] GetEndpoint_view[OF assms] GetEndpoint_result[OF assms]
      split: option.splits)

lemma request_action_value:
  assumes "redis_laws (client ls) view" and "request_action env ls r i pc (h, w) = (pc', h', w')"
    and "\<not> opens_key ls k (Request n r seen pc)"
  shows "value_at view k w' = value_at view k w"
proof (cases pc)
  case (AtGet c)
  with assms(2) value_at_Get(1)[OF assms(1), of k "createNamespacedKey ls c" w] show ?thesis
    by (auto split: prod.splits sum.splits)
next
  case (AtExpire c e)
  with assms(2) show ?thesis by (auto simp: value_at_def law_Expire[OF assms(1)] split: option.splits)
next
  case (AtAddCookie j a oc)
  with assms(2,3) show ?thesis by (auto simp: value_at_def AddCookie_view[OF assms(1)])
qed (use assms(2) in \<open>auto split: option.splits\<close>)

lemma Keys_step:
  assumes "redis_laws (client ls) view" and "literal_namespace ls"
  obtains ks w1 where "rc_Keys (client ls) (createNamespacedKey ls ''*'') w = (Inr ks, w1)"
    and "set ks \<subseteq> dom (view w)" and "view w1 = view w"
proof -
  from assms(2) have g: "glob_free (createNamespaced ls)" by (simp add: literal_namespace_def)
  from law_Keys[OF assms(1) g, of w] law_Keys_view[OF assms(1) g, of w] that show thesis
    by (cases "rc_Keys (client ls) (createNamespaced ls @ ''*'') w") (auto simp: literal_namespace_star[OF assms(2)])
qed

fun clean_entries :: "clean_pc \<Rightarrow> (string \<times> string) set" where
  "clean_entries (CAtGet ks m) = set m"
| "clean_entries (CAtDel es) = set es"
| "clean_entries _ = {}"

fun clean_keys :: "clean_pc \<Rightarrow> string set" where
  "clean_keys (CAtGet ks m) = set ks \<union> fst ` set m"
| "clean_keys (CAtDel es) = fst ` set es"
| "clean_keys _ = {}"

lemma set_AList_update: "set (AList.update k v al) \<subseteq> insert (k, v) (set al)"
  by (induction al) auto

lemma set_range_order: "range_order ord \<Longrightarrow> set (ord xs) = set xs"
  unfolding range_order_def by (metis set_mset_mset)

text \<open>A key that no cleaning knows of, and that redis does not have, comes from no cleaning.\<close>

lemma clean_action_fresh:
  assumes laws: "redis_laws (client ls) view" "literal_namespace ls" "range_order ord"
    and act: "clean_action ord ls eps pc w = (pc', w')"
    and "value_at view k w = None" and "k \<notin> clean_keys pc"
  shows "value_at view k w' = None" and "k \<notin> clean_keys pc'"
proof -
  have "value_at view k w' = None \<and> k \<notin> clean_keys pc'"
  proof (cases "(ord, ls, eps, pc, w)" rule: clean_action.cases)
    case (2 ord' ls' eps' v)
    obtain ks w1 where "rc_Keys (client ls) (createNamespacedKey ls ''*'') w = (Inr ks, w1)"
      "set ks \<subseteq> dom (view w)" "view w1 = view w" by (rule Keys_step[OF laws(1,2)])
    with 2 act assms(5) show ?thesis by (auto simp: value_at_def)
  next
    case (4 ord' ls' eps' c ks m v)
    have "k \<notin> fst ` set (AList.update c e m)" for e
      using set_AList_update[of c e m] assms(6) 4 by auto
    with 4 act assms(5,6) value_at_Get(3)[OF laws(1), of k c w] show ?thesis
      by (auto split: prod.splits sum.splits)
  next
    case (6 ord' ls' eps' kv es v)
    with act assms(5,6) law_Del[OF laws(1), of "fst kv" w] show ?thesis by (auto simp: value_at_def)
  qed (use act assms(5,6) in \<open>auto simp: set_range_order[OF laws(3)]\<close>)
  then show "value_at view k w' = None" "k \<notin> clean_keys pc'" by blast+
qed

text \<open>A cleaning that keeps the endpoint of an entry, and has read nothing else of it, keeps the entry.\<close>

lemma clean_action_keeps:
  assumes laws: "redis_laws (client ls) view" "literal_namespace ls" "range_order ord"
    and act: "clean_action ord ls eps pc w = (pc', w')"
    and val: "value_at view k w = Some a" and "a \<in> set eps" and key: "createNamespacedKey ls k = k"
    and ent: "\<forall>x. (k, x) \<in> clean_entries pc \<longrightarrow> x = a"
  shows "value_at view k w' = Some a" and "\<forall>x. (k, x) \<in> clean_entries pc' \<longrightarrow> x = a"
proof -
  have "value_at view k w' = Some a \<and> (\<forall>x. (k, x) \<in> clean_entries pc' \<longrightarrow> x = a)"
  proof (cases "(ord, ls, eps, pc, w)" rule: clean_action.cases)
    case (2 ord' ls' eps' v)
    obtain ks w1 where "rc_Keys (client ls) (createNamespacedKey ls ''*'') w = (Inr ks, w1)"
      "view w1 = view w" by (rule Keys_step[OF laws(1,2)])
    with 2 act val show ?thesis by (auto simp: value_at_def)
  next
    case (4 ord' ls' eps' c ks m v)
    have "redis_value (view w k) = a" using val by (auto simp: value_at_def redis_value_def)
    then have "x = a" if "(k, x) \<in> set (AList.update c (redis_value (view w (createNamespacedKey ls c))) m)" for x
      using that set_AList_update[of c _ m] ent 4 key by fastforce
    with 4 act val ent value_at_Get(3)[OF laws(1), of k c w] value_at_Get(4)[OF laws(1), of c w] show ?thesis
      by (auto split: prod.splits sum.splits)
  next
    case (6 ord' ls' eps' kv es v)
    with act val ent assms(6) law_Del[OF laws(1), of "fst kv" w] show ?thesis
      by (cases kv) (auto simp: value_at_def contains_iff)
  qed (use act val ent in \<open>auto simp: set_range_order[OF laws(3)]\<close>)
  then show "value_at view k w' = Some a" "\<forall>x. (k, x) \<in> clean_entries pc' \<longrightarrow> x = a" by blast+
qed

section \<open>A session before it is recorded\<close>

definition key_fresh :: "('w \<Rightarrow> string \<Rightarrow> (string \<times> int) option) \<Rightarrow> string \<Rightarrow> 'w replicas \<Rightarrow> bool" where
  "key_fresh view k s \<longleftrightarrow> value_at view k (rs_world s) = None \<and>
     (\<forall>n eps pc. Cleaner n eps pc \<in> set (rs_threads s) \<longrightarrow> k \<notin> clean_keys pc)"

definition fresh_or_recorded ::
  "('w \<Rightarrow> string \<Rightarrow> (string \<times> int) option) \<Rightarrow> 'w manager \<Rightarrow> string \<Rightarrow> 'w replicas \<Rightarrow> bool" where
  "fresh_or_recorded view ls k s \<longleftrightarrow> key_fresh view k s \<or> (\<exists>x \<in> set (rs_threads s). recorded_key ls k x)"

text \<open>What is assumed of redis and of the order of map iterations throughout.\<close>

definition clean_laws ::
  "'w manager \<Rightarrow> ('w \<Rightarrow> string \<Rightarrow> (string \<times> int) option) \<Rightarrow> ((string \<times> string) list \<Rightarrow> (string \<times> string) list) \<Rightarrow> bool" where
  "clean_laws ls view ord \<longleftrightarrow> redis_laws (client ls) view \<and> literal_namespace ls \<and> range_order ord"

lemma clean_lawsD:
  assumes "clean_laws ls view ord"
  shows "redis_laws (client ls) view" and "literal_namespace ls" and "range_order ord"
  using assms by (simp_all add: clean_laws_def)

lemma serve_step_fresh:
  assumes "serve_step env ls s t" and "clean_laws ls view ord" and "key_fresh view k s"
  shows "fresh_or_recorded view ls k t"
  using assms(1)
proof cases
  case (serve i n r seen pc m rt pc' h' w')
  show ?thesis
  proof (cases "opens_key ls k (Request n r seen pc)")
    case True
    with serve(4,6) have "recorded_key ls k (Request n r seen pc')"
      by (cases pc) auto
    moreover have "Request n r seen pc' \<in> set (rs_threads t)"
      using serve(1,2) by (simp add: set_update_memI)
    ultimately show ?thesis unfolding fresh_or_recorded_def by blast
  next
    case False
    have "value_at view k w' = None"
      using request_action_value[OF clean_lawsD(1)[OF assms(2)] serve(6) False] assms(3) by (simp add: key_fresh_def)
    moreover have "k \<notin> clean_keys q" if "Cleaner m' eps q \<in> set (rs_threads t)" for m' eps q
      using that assms(3) set_update_subset_insert[of "rs_threads s" i "Request n r seen pc'"]
      by (auto simp: serve(1) key_fresh_def)
    ultimately show ?thesis by (simp add: fresh_or_recorded_def key_fresh_def serve(1))
  qed
qed

lemma in_note_config: "Cleaner n eps pc \<in> note_config m c ` xs \<longleftrightarrow> Cleaner n eps pc \<in> xs"
proof
  assume "Cleaner n eps pc \<in> note_config m c ` xs"
  then obtain x where "x \<in> xs" "note_config m c x = Cleaner n eps pc" by auto
  then show "Cleaner n eps pc \<in> xs" by (cases x) auto
qed force

lemma step_fresh:
  assumes "replicas_step env ord ls s t" and "clean_laws ls view ord" and "key_fresh view k s"
  shows "fresh_or_recorded view ls k t"
  using assms(1)
proof cases
  case run
  with assms(2,3) show ?thesis by (blast intro: serve_step_fresh)
next
  case (clean_run i n eps pc pc' w')
  have "Cleaner n eps pc \<in> set (rs_threads s)" using clean_run(2,3) nth_mem by metis
  with assms(3) have f: "value_at view k (rs_world s) = None" "k \<notin> clean_keys pc" by (auto simp: key_fresh_def)
  note a = clean_action_fresh[OF clean_lawsD[OF assms(2)] clean_run(6) f]
  have "k \<notin> clean_keys q" if "Cleaner m e q \<in> set (rs_threads t)" for m e q
    using that a(2) assms(3) set_update_subset_insert[of "rs_threads s" i "Cleaner n eps pc'"]
    by (auto simp: clean_run(1) key_fresh_def)
  with a(1) show ?thesis by (simp add: fresh_or_recorded_def key_fresh_def clean_run(1))
next
  case (clean_lock i n eps)
  have "k \<notin> clean_keys q" if "Cleaner m e q \<in> set (rs_threads t)" for m e q
    using that assms(3) set_update_subset_insert[of "rs_threads s" i "Cleaner n eps CAtKeys"]
    by (auto simp: clean_lock(1) key_fresh_def)
  with assms(3) show ?thesis by (simp add: fresh_or_recorded_def key_fresh_def clean_lock(1))
qed (use assms(3) in \<open>auto simp: fresh_or_recorded_def key_fresh_def in_note_config\<close>)

interpretation fresh_run: invariant_steps "replicas_step env ord ls" "\<lambda>s. clean_laws ls view ord \<and> fresh_or_recorded view ls k s"
  for env :: handler_env and ord :: "(string \<times> string) list \<Rightarrow> (string \<times> string) list" and ls :: "'w manager"
    and view :: "'w \<Rightarrow> string \<Rightarrow> (string \<times> int) option" and k :: string
  by unfold_locales (use step_fresh step_recorded in \<open>unfold fresh_or_recorded_def, blast\<close>)

lemma unrecorded_fresh:
  assumes "clean_laws ls view ord" and "(replicas_step env ord ls)\<^sup>*\<^sup>* (replicas_start cfg w0) s"
    and "view w0 k = None" and "\<not> (\<exists>x \<in> set (rs_threads s). recorded_key ls k x)"
  shows "key_fresh view k s"
proof -
  have "fresh_or_recorded view ls k (replicas_start cfg w0)"
    using assms(3) by (simp add: fresh_or_recorded_def key_fresh_def replicas_start_def value_at_def)
  with fresh_run.reach_inv[OF assms(2), of view k] assms(1,4) show ?thesis by (simp add: fresh_or_recorded_def)
qed

section \<open>A session after it is recorded\<close>

text \<open>
  From then on, no other request may open a session under the key \<open>k\<close>, and a cleaning keeps the
  endpoint \<open>a\<close> unless it had ended before (\<open>D\<close>). \<open>opener\<close> is the request that recorded the session.
\<close>

definition quiet :: "'w manager \<Rightarrow> string \<Rightarrow> string \<Rightarrow> nat \<Rightarrow> nat set \<Rightarrow> goroutine list \<Rightarrow> bool" where
  "quiet ls k a opener D ts \<longleftrightarrow> (\<forall>i < length ts. (i \<noteq> opener \<longrightarrow> \<not> opens_key ls k (ts ! i)) \<and>
     (\<forall>n eps pc. ts ! i = Cleaner n eps pc \<longrightarrow> i \<in> D \<or> a \<in> set eps))"

lemma quiet_back:
  assumes "threads_evolve xs ys" and "quiet ls k a opener D ys"
  shows "quiet ls k a opener D xs"
  unfolding quiet_def
proof (intro allI impI conjI)
  fix i assume i: "i < length xs"
  with assms(1) have y: "i < length ys" "evolves (xs ! i) (ys ! i)" by (auto simp: threads_evolve_def)
  with assms(2) show "\<not> opens_key ls k (xs ! i)" if "i \<noteq> opener"
    using that evolves_opens unfolding quiet_def by blast
  fix n eps pc assume "xs ! i = Cleaner n eps pc"
  with y(2) obtain pc' where "ys ! i = Cleaner n eps pc'" by (cases "ys ! i") auto
  with y(1) assms(2) show "i \<in> D \<or> a \<in> set eps" unfolding quiet_def by blast
qed

text \<open>The answers of the handler itself when it has no upstream for the host.\<close>

definition unrouted_answers :: "http_outcome list" where
  "unrouted_answers = [answer ''No Host Error'' 400 False, answer ''No endpoints Error'' 404 True,
     answer ''No Services Error'' 503 True, answer ''URL Error'' 500 False]"

text \<open>The locations of a request that carries the session \<open>v\<close>, recorded for \<open>a\<close>.\<close>

fun sticks :: "string \<Rightarrow> string \<Rightarrow> request_pc \<Rightarrow> bool" where
  "sticks v a AtEndpoints = True"
| "sticks v a (AtGet c) = (c = v)"
| "sticks v a (AtExpire c e) = (e = a)"
| "sticks v a (AtLoad new b url) = (\<not> new \<and> b = a \<and> (\<exists>p. url = upstream_url a p))"
| "sticks v a (AtStore new b url) = (\<not> new \<and> b = a \<and> (\<exists>p. url = upstream_url a p))"
| "sticks v a (AtReload new b) = (\<not> new \<and> b = a)"
| "sticks v a (AtServe new b url) = (\<not> new \<and> b = a \<and> (\<exists>p. url = upstream_url a p))"
| "sticks v a (Answered oc) = ((\<exists>p. oc_forwarded oc = [upstream_url a p]) \<or> oc \<in> set unrouted_answers)"
| "sticks v a _ = False"

lemma action_endpoints_sticks:
  assumes "handler_config_wf h" and "request_Cookie r ''JSESSIONID'' = Some v" and "\<not> class_lookup r"
  shows "sticks v a (action_endpoints h r i)"
  using handler_getEndpoints_wf[OF assms(1), of "getHost r"] assms(2,3)
  by (auto simp: action_endpoints_def unrouted_answers_def Let_def split: option.split)

lemma request_action_sticks:
  assumes "redis_laws (client ls) view" and "request_action env ls r i pc (h, w) = (pc', h', w')" and "sticks v a pc"
    and "request_Cookie r ''JSESSIONID'' = Some v" and "\<not> class_lookup r" and "a \<noteq> ''''"
    and "proxies_ok h" and "handler_config_wf h" and "pc_ok h r seen pc"
    and "value_at view (createNamespacedKey ls v) w = Some a"
  shows "sticks v a pc'"
proof (cases pc)
  case AtEndpoints
  with assms(2) action_endpoints_sticks[OF assms(8,4,5)] show ?thesis by auto
next
  case (AtGet c)
  obtain x w1 where g: "rc_Get (client ls) (createNamespacedKey ls v) w = (x, w1)" by fastforce
  from value_at_Get(2)[OF assms(1) g] assms(10) have "x = Inr a" by simp
  with AtGet g assms(2,3) show ?thesis by auto
next
  case (AtReload new b)
  with assms(3,9) obtain u where "map_of (proxyMap h) a = Some u" by auto
  with AtReload assms(2,3,7) show ?thesis by (auto simp: proxies_ok_def)
next
  case (AtLoad new b url)
  with assms(2,3,7) show ?thesis by (auto simp: proxies_ok_def unrouted_answers_def split: option.splits if_splits)
next
  case (AtServe new b url)
  with assms(2,3) show ?thesis by (auto simp: action_served_def forward_def Let_def)
qed (use assms(2,3,6) in auto)

fun held_at :: "string \<Rightarrow> string \<Rightarrow> string \<Rightarrow> nat \<Rightarrow> nat set \<Rightarrow> nat \<Rightarrow> goroutine \<Rightarrow> bool" where
  "held_at k v a n1 D i (Request n r seen pc) \<longleftrightarrow>
     (n1 \<le> i \<and> request_Cookie r ''JSESSIONID'' = Some v \<and> \<not> class_lookup r \<longrightarrow> sticks v a pc)"
| "held_at k v a n1 D i (Cleaner n eps pc) \<longleftrightarrow>
     (i \<in> D \<longrightarrow> (\<exists>err. pc = CDone err)) \<and> (\<forall>x. (k, x) \<in> clean_entries pc \<longrightarrow> x = a)"

lemma held_at_note: "held_at k v a n1 D i x \<Longrightarrow> held_at k v a n1 D i (note_config m c x)"
  by (cases x) auto

definition held ::
  "('w \<Rightarrow> string \<Rightarrow> (string \<times> int) option) \<Rightarrow> string \<Rightarrow> string \<Rightarrow> string \<Rightarrow> nat \<Rightarrow> nat \<Rightarrow> nat set \<Rightarrow> 'w replicas \<Rightarrow> bool" where
  "held view k v a opener n1 D s \<longleftrightarrow> value_at view k (rs_world s) = Some a \<and>
     opener < n1 \<and> n1 \<le> length (rs_threads s) \<and> D \<subseteq> {..<n1} \<and>
     (\<exists>n r seen pc. rs_threads s ! opener = Request n r seen pc \<and> finished pc) \<and>
     (\<forall>i < length (rs_threads s). held_at k v a n1 D i (rs_threads s ! i))"

lemma heldD:
  assumes "held view k v a opener n1 D s"
  shows "value_at view k (rs_world s) = Some a" and "opener < n1" and "n1 \<le> length (rs_threads s)" and "D \<subseteq> {..<n1}"
    and "\<exists>n r seen pc. rs_threads s ! opener = Request n r seen pc \<and> finished pc"
    and "i < length (rs_threads s) \<Longrightarrow> held_at k v a n1 D i (rs_threads s ! i)"
  using assms unfolding held_def by blast+

text \<open>How a step that changes one goroutine, or adds one, keeps it.\<close>

lemma held_update:
  assumes "held view k v a opener n1 D s" and "rs_threads t = (rs_threads s)[i := x]" and "i \<noteq> opener"
    and "value_at view k (rs_world t) = Some a" and "held_at k v a n1 D i x"
  shows "held view k v a opener n1 D t"
proof -
  have "held_at k v a n1 D j ((rs_threads s)[i := x] ! j)" if "j < length (rs_threads s)" for j
    using that assms(5) heldD(6)[OF assms(1) that] by (cases "j = i") simp_all
  with heldD(2-5)[OF assms(1)] assms(2-4) show ?thesis by (simp add: held_def)
qed

lemma held_append:
  assumes "held view k v a opener n1 D s" and "rs_threads t = rs_threads s @ [x]"
    and "rs_world t = rs_world s" and "\<And>i. i \<notin> D \<Longrightarrow> held_at k v a n1 D i x"
  shows "held view k v a opener n1 D t"
proof -
  note h = heldD[OF assms(1)]
  have "length (rs_threads s) \<notin> D" using h(3,4) by auto
  with h assms(2-4) show ?thesis by (auto simp: held_def nth_append less_Suc_eq)
qed

lemma step_held:
  assumes step: "replicas_step env ord ls s t" and laws: "clean_laws ls view ord"
    and k: "k = createNamespacedKey ls v" and "a \<noteq> ''''" and ok: "replicas_ok s"
    and quiet: "quiet ls k a opener D (rs_threads s)" and held: "held view k v a opener n1 D s"
  shows "held view k v a opener n1 D t"
  using step
proof cases
  case run
  then show ?thesis
  proof cases
    case (serve i n r seen pc m rt pc' h' w')
    have i: "i \<noteq> opener" using serve(3,4) heldD(5)[OF held] by auto
    with quiet serve(2,3) have "\<not> opens_key ls k (Request n r seen pc)" unfolding quiet_def by metis
    from request_action_value[OF clean_lawsD(1)[OF laws] serve(6) this] heldD(1)[OF held]
    have val: "value_at view k w' = Some a" by simp
    have "goroutine_ok (rs_handlers s) (Request n r seen pc)"
      using ok nth_mem[OF serve(2)] unfolding replicas_ok_def serve(3) by blast
    then have pc: "pc_ok (rs_handlers s n) r seen pc" by simp
    have "proxies_ok (rs_handlers s n)" "handler_config_wf (rs_handlers s n)" using ok by (auto simp: replicas_ok_def)
    note stick = request_action_sticks[OF clean_lawsD(1)[OF laws] serve(6) _ _ _ assms(4) this pc]
    have "held_at k v a n1 D i (Request n r seen pc')"
      using stick[of v] heldD(6)[OF held serve(2)] heldD(1)[OF held] by (auto simp: serve(3) k)
    then show ?thesis
      using held_update[OF held _ i, of t "Request n r seen pc'"] val by (simp add: serve(1) del: held_at.simps)
  qed
next
  case (arrive n r)
  show ?thesis
    by (rule held_append[OF held, where x = "Request n r [targetConfig (rs_handlers s n)] AtEndpoints"]) (simp_all add: arrive)
next
  case (update c n)
  have "held_at k v a n1 D i (note_config n (Some c) (rs_threads s ! i))" if "i < length (rs_threads s)" for i
    using heldD(6)[OF held that] by (rule held_at_note)
  with heldD[OF held] show ?thesis by (auto simp: update(1) held_def)
next
  case (clean n eps)
  show ?thesis by (rule held_append[OF held, where x = "Cleaner n eps CAtLock"]) (simp_all add: clean)
next
  case (clean_lock i n eps)
  have i: "i \<noteq> opener" using clean_lock(3) heldD(5)[OF held] by auto
  from heldD(6)[OF held clean_lock(2)] have "held_at k v a n1 D i (Cleaner n eps CAtKeys)" by (simp add: clean_lock(3))
  then show ?thesis
    using held_update[OF held _ i, of t "Cleaner n eps CAtKeys"] heldD(1)[OF held] by (simp add: clean_lock(1) del: held_at.simps)
next
  case (clean_run i n eps pc pc' w')
  have i: "i \<noteq> opener" using clean_run(3) heldD(5)[OF held] by auto
  from heldD(6)[OF held clean_run(2)] clean_run(3,5)
  have D: "i \<notin> D" "\<forall>x. (k, x) \<in> clean_entries pc \<longrightarrow> x = a" by auto
  with quiet clean_run(2,3) have "a \<in> set eps" unfolding quiet_def by blast
  note keeps = clean_action_keeps[OF clean_lawsD[OF laws] clean_run(6) heldD(1)[OF held] this _ D(2)]
  have "createNamespacedKey ls k = k" by (simp add: k createNamespacedKey_idem)
  note keeps = keeps[OF this]
  with D(1) have "held_at k v a n1 D i (Cleaner n eps pc')" by simp
  then show ?thesis
    using held_update[OF held _ i, of t "Cleaner n eps pc'"] keeps(1) by (simp add: clean_run(1) del: held_at.simps)
qed

lemma steps_held:
  assumes "(replicas_step env ord ls)\<^sup>*\<^sup>* s t" and laws: "clean_laws ls view ord"
    and k: "k = createNamespacedKey ls v" and a: "a \<noteq> ''''" and "replicas_ok s"
    and "quiet ls k a opener D (rs_threads t)" and "held view k v a opener n1 D s"
  shows "held view k v a opener n1 D t"
  using assms(1,5,6,7)
proof (induction rule: rtranclp_induct)
  case (step u t)
  have "quiet ls k a opener D (rs_threads u)" by (rule quiet_back[OF step_evolves[OF step.hyps(2)] step.prems(2)])
  with step show ?case using step_held[OF step.hyps(2) laws k a] replicas_run.reach_inv[OF step.hyps(1)] by blast
qed

text \<open>The step that records the session.\<close>

lemma record_step:
  assumes step: "replicas_step env ord ls s s1" and i: "i < length (rs_threads s)"
    and at: "rs_threads s ! i = Request n r seen (AtAddCookie v a oc)"
    and rec: "rs_threads s1 ! i = Request n r seen1 (Recorded v a oc)"
  shows "rs_world s1 = AddCookie ls v a (rs_world s)" and "rs_threads s1 = (rs_threads s)[i := rs_threads s1 ! i]"
proof -
  have "rs_world s1 = AddCookie ls v a (rs_world s) \<and> rs_threads s1 = (rs_threads s)[i := rs_threads s1 ! i]"
    using step
  proof cases
    case run
    then show ?thesis
    proof cases
      case (serve j m q se pc x rt pc' h' w')
      have "j = i" using at rec by (cases "j = i") (simp_all add: serve(1))
      with serve at show ?thesis by auto
    qed
  qed (use at rec i in \<open>auto simp: nth_append nth_list_update split: if_splits\<close>)
  then show "rs_world s1 = AddCookie ls v a (rs_world s)" "rs_threads s1 = (rs_threads s)[i := rs_threads s1 ! i]" by blast+
qed

text \<open>The cleanings that have ended.\<close>

definition ended_cleanings :: "goroutine list \<Rightarrow> nat set" where
  "ended_cleanings ts = {i. i < length ts \<and> (\<exists>n eps err. ts ! i = Cleaner n eps (CDone err))}"

lemma held_at_record:
  assumes "clean_laws ls view ord" and "replicas_step env ord ls s s1" and "i < length (rs_threads s)"
    and "rs_threads s ! i = Request n r seen (AtAddCookie v a oc)"
    and "rs_threads s1 ! i = Request n r seen1 (Recorded v a oc)"
    and "key_fresh view (createNamespacedKey ls v) s"
  shows "held view (createNamespacedKey ls v) v a i (length (rs_threads s1)) (ended_cleanings (rs_threads s1)) s1"
proof -
  let ?k = "createNamespacedKey ls v"
  note r = record_step[OF assms(2-5)]
  have "value_at view ?k (rs_world s1) = Some a"
    by (simp add: r(1) value_at_def AddCookie_view[OF clean_lawsD(1)[OF assms(1)]])
  moreover have "held_at ?k v a (length (rs_threads s1)) (ended_cleanings (rs_threads s1)) j (rs_threads s1 ! j)"
    if j: "j < length (rs_threads s1)" for j
  proof (cases "rs_threads s1 ! j")
    case (Request m q se pc)
    with j show ?thesis by simp
  next
    case (Cleaner m eps pc)
    with assms(5) have "j \<noteq> i" by auto
    with r(2) j Cleaner have "Cleaner m eps pc \<in> set (rs_threads s)"
      by (metis length_list_update nth_list_update_neq nth_mem)
    with assms(6) have "?k \<notin> clean_keys pc" by (auto simp: key_fresh_def)
    then have "\<forall>x. (?k, x) \<notin> clean_entries pc" by (cases pc) force+
    with Cleaner show ?thesis by (auto simp: ended_cleanings_def)
  qed
  moreover have "i < length (rs_threads s1)" using assms(3) arg_cong[OF r(2), of length] by simp
  ultimately show ?thesis using assms(5) by (auto simp: held_def ended_cleanings_def)
qed

section \<open>Runs\<close>

text \<open>A request that opens a session, up to the moment before it is recorded.\<close>

abbreviation running :: "(nat \<Rightarrow> wls_handler) \<Rightarrow> 'w \<Rightarrow> goroutine list \<Rightarrow> 'w replicas" where
  "running hs w ts \<equiv> \<lparr>rs_handlers = hs, rs_mutx = (\<lambda>_. False), rs_world = w, rs_threads = ts\<rparr>"

lemmas run_into = rtranclp.rtrancl_into_rtrancl[of "replicas_step env ord ls" for env ord ls]
lemmas run_trans = rtranclp_trans[of "replicas_step env ord ls" for env ord ls]

lemma opening_run:
  assumes "handler_getEndpoints (hs n) (getHost r) = Inr (Some eps)" and "k < length eps"
    and "request_Cookie r ''JSESSIONID'' = None" and "getHost r \<noteq> ''''" and "e = eps ! k"
    and "map_of (proxyMap (hs n)) (Address e) = None" and "he_parseURL env (upstream_url (Address e) (Port e))"
    and "jsession_of (Header_Get (rw_header (proxy_ServeHTTP rt new_response)) ''Set-Cookie'') = Some v"
    and "h = (hs n)\<lparr>proxyMap := AList.update (Address e) (upstream_url (Address e) (Port e)) (proxyMap (hs n))\<rparr>"
    and "oc = forward (env\<lparr>he_roundTrip := \<lambda>_ _. rt\<rparr>) r (upstream_url (Address e) (Port e))"
  shows "(replicas_step env ord ls)\<^sup>*\<^sup>* (running hs w (Request n r seen AtEndpoints # ts))
     (running (hs(n := h)) w (Request n r seen (AtAddCookie v (Address e) oc) # ts))"
proof -
  let ?a = "Address e" and ?url = "upstream_url (Address e) (Port e)" and ?R = "replicas_step env ord ls"
  have ne: "eps \<noteq> []" using assms(2) by auto
  have cookie: "Header_Get (rw_header (proxy_ServeHTTP rt new_response)) ''Set-Cookie'' \<noteq> ''''"
    using assms(8) jsession_of_Nil by auto
  have act: "action_endpoints (hs n) r k = AtLoad True ?a ?url" and rand: "rand_in_range (hs n) r k"
    using assms(1-5) ne by (simp_all add: action_endpoints_def go_index_def rand_in_range_def)
  have r1: "?R\<^sup>*\<^sup>* (running hs w (Request n r seen AtEndpoints # ts)) (running hs w (Request n r seen (AtLoad True ?a ?url) # ts))"
    using step_first[of AtEndpoints hs n r k rt env ls w "AtLoad True ?a ?url" "hs n" w] act rand by auto
  have r2: "?R (running hs w (Request n r seen (AtLoad True ?a ?url) # ts)) (running hs w (Request n r seen (AtStore True ?a ?url) # ts))"
    using step_first[of "AtLoad True ?a ?url" hs n r k rt env ls w "AtStore True ?a ?url" "hs n" w] assms(6,7) by auto
  have r3: "?R (running hs w (Request n r seen (AtStore True ?a ?url) # ts)) (running (hs(n := h)) w (Request n r seen (AtReload True ?a) # ts))"
    using step_first[of "AtStore True ?a ?url" hs n r k rt env ls w "AtReload True ?a" h w] assms(9) by auto
  have r4: "?R (running (hs(n := h)) w (Request n r seen (AtReload True ?a) # ts)) (running (hs(n := h)) w (Request n r seen (AtServe True ?a ?url) # ts))"
    using step_first[of "AtReload True ?a" "hs(n := h)" n r k rt env ls w "AtServe True ?a ?url" h w] assms(9)
    by (auto simp: update_conv')
  have r5: "?R (running (hs(n := h)) w (Request n r seen (AtServe True ?a ?url) # ts)) (running (hs(n := h)) w (Request n r seen (AtAddCookie v ?a oc) # ts))"
    using step_first[of "AtServe True ?a ?url" "hs(n := h)" n r k rt env ls w "AtAddCookie v ?a oc" h w] assms(8,10) cookie
    by (auto simp: action_served_def forward_def Let_def)
  show ?thesis by (rule run_into[OF run_into[OF run_into[OF run_into[OF r1 r2] r3] r4] r5])
qed

text \<open>A request that carries a recorded session, on a replica that has no proxy for its endpoint.\<close>

lemma session_run:
  assumes "handler_getEndpoints (hs m) (getHost r) = Inr (Some eps)" and "eps \<noteq> []" and "getHost r \<noteq> ''''"
    and "request_Cookie r ''JSESSIONID'' = Some v" and "rc_Get (client ls) (createNamespacedKey ls v) w = (Inr a, w1)"
    and "a \<noteq> ''''" and "map_of (proxyMap (hs m)) a = None" and "he_parseURL env (upstream_url a ''7001'')"
    and "h = (hs m)\<lparr>proxyMap := AList.update a (upstream_url a ''7001'') (proxyMap (hs m))\<rparr>"
    and "w2 = snd (rc_Expire (client ls) (createNamespacedKey ls v) time_Hour w1)"
    and "oc = forward (env\<lparr>he_roundTrip := \<lambda>_ _. rt\<rparr>) r (upstream_url a ''7001'')"
  shows "(replicas_step env ord ls)\<^sup>*\<^sup>* (running hs w [x, Request m r seen AtEndpoints])
     (running (hs(m := h)) w2 [x, Request m r seen (Answered oc)])"
proof -
  let ?url = "upstream_url a ''7001''" and ?R = "replicas_step env ord ls" and ?q = "\<lambda>pc. [x, Request m r seen pc]"
  note step = step_at[where n = m and r = r and k = 0 and rt = rt and env = env and ls = ls and xs = "[x]" and ts = "[]"
      and seen = seen, simplified]
  have act: "action_endpoints (hs m) r 0 = AtGet v" and rand: "rand_in_range (hs m) r 0"
    using assms(1-4) by (simp_all add: action_endpoints_def rand_in_range_def)
  have r1: "?R\<^sup>*\<^sup>* (running hs w (?q AtEndpoints)) (running hs w (?q (AtGet v)))"
    using step[of AtEndpoints hs w "AtGet v" "hs m" w] act rand by auto
  have r2: "?R (running hs w (?q (AtGet v))) (running hs w1 (?q (AtExpire v a)))"
    using step[of "AtGet v" hs w "AtExpire v a" "hs m" w1] assms(5) by simp
  have r3: "?R (running hs w1 (?q (AtExpire v a))) (running hs w2 (?q (AtLoad False a ?url)))"
    using step[of "AtExpire v a" hs w1 "AtLoad False a ?url" "hs m" w2] assms(6,10) by simp
  have r4: "?R (running hs w2 (?q (AtLoad False a ?url))) (running hs w2 (?q (AtStore False a ?url)))"
    using step[of "AtLoad False a ?url" hs w2 "AtStore False a ?url" "hs m" w2] assms(7,8) by simp
  have r5: "?R (running hs w2 (?q (AtStore False a ?url))) (running (hs(m := h)) w2 (?q (AtReload False a)))"
    using step[of "AtStore False a ?url" hs w2 "AtReload False a" h w2] assms(9) by simp
  have r6: "?R (running (hs(m := h)) w2 (?q (AtReload False a))) (running (hs(m := h)) w2 (?q (AtServe False a ?url)))"
    using step[of "AtReload False a" "hs(m := h)" w2 "AtServe False a ?url" h w2] assms(9) by (simp add: update_conv')
  have r7: "?R (running (hs(m := h)) w2 (?q (AtServe False a ?url))) (running (hs(m := h)) w2 (?q (Answered oc)))"
    using step[of "AtServe False a ?url" "hs(m := h)" w2 "Answered oc" h w2] assms(11)
    by (simp add: action_served_def Let_def)
  show ?thesis by (rule run_into[OF run_into[OF run_into[OF run_into[OF run_into[OF run_into[OF r1 r2] r3] r4] r5] r6] r7])
qed

section \<open>Properties\<close>

text \<open>C2: session affinity under concurrency. The replicas start, redis has no entry for the session \<open>v\<close>, and
  some request records \<open>v\<close> for the address \<open>a\<close>. Every request with that session which arrives
  afterwards, on any replica, is forwarded to \<open>a\<close> once it is answered, unless the handler has no upstream
  for its host: however requests, updates and cleanings interleave at their commands to redis, as long
  as no other request opens a session under the same key and every cleaning that had not ended keeps \<open>a\<close>.\<close>

theorem concurrent_session_affinity:
  assumes "clean_laws ls view ord" and "\<forall>n. config_wf (cfg n)"
    and "view w0 (createNamespacedKey ls v) = None"
    and "(replicas_step env ord ls)\<^sup>*\<^sup>* (replicas_start cfg w0) s" and "replicas_step env ord ls s s1"
    and "i < length (rs_threads s)" and "rs_threads s ! i = Request n r seen (AtAddCookie v a oc)"
    and "rs_threads s1 ! i = Request n r seen1 (Recorded v a oc)" and "a \<noteq> ''''"
    and "(replicas_step env ord ls)\<^sup>*\<^sup>* s1 s2"
    and "quiet ls (createNamespacedKey ls v) a i (ended_cleanings (rs_threads s1)) (rs_threads s2)"
    and "length (rs_threads s1) \<le> j" and "j < length (rs_threads s2)"
    and "rs_threads s2 ! j = Request n' r' seen' (Answered oc')"
    and "request_Cookie r' ''JSESSIONID'' = Some v" and "\<not> class_lookup r'"
  shows "(\<exists>p. oc_forwarded oc' = [upstream_url a p]) \<or> oc' \<in> set unrouted_answers"
proof -
  let ?k = "createNamespacedKey ls v" and ?D = "ended_cleanings (rs_threads s1)"
  have ok: "replicas_ok s1"
    using replicas_step_ok[OF assms(5)] replicas_run.reach_inv[OF assms(4) replicas_start_ok[OF assms(2)]] .
  have "threads_evolve (rs_threads s) (rs_threads s2)"
    using threads_evolve_trans[OF step_evolves[OF assms(5)] steps_evolve[OF assms(10)]] .
  with assms(11) have q: "quiet ls ?k a i ?D (rs_threads s)" by (rule quiet_back[rotated])
  have "\<not> recorded_key ls ?k x" if "x \<in> set (rs_threads s)" for x
  proof -
    from that obtain m where m: "m < length (rs_threads s)" "rs_threads s ! m = x" by (auto simp: in_set_conv_nth)
    show ?thesis
    proof (cases "m = i")
      case True
      with m assms(7) show ?thesis by auto
    next
      case False
      with q m have "\<not> opens_key ls ?k x" unfolding quiet_def by blast
      then show ?thesis by (cases "(ls, ?k, x)" rule: recorded_key.cases) auto
    qed
  qed
  with unrecorded_fresh[OF assms(1,4,3)] have "key_fresh view ?k s" by blast
  from held_at_record[OF assms(1,5-8) this] steps_held[OF assms(10,1) refl assms(9) ok assms(11)]
  have "held view ?k v a i (length (rs_threads s1)) ?D s2" by blast
  from heldD(6)[OF this assms(13)] assms(12,14-16) show ?thesis by simp
qed

text \<open>C14: a session is given to the client before it is recorded. Whenever a host has endpoints and one of
  them opens a session \<open>v\<close> that redis does not know, there is a run in which the answer with the session
  has been written to the client, and a request of the client with that session is refused with 503,
  although the endpoint is up: the handler records the session only after the exchange with the upstream.\<close>

theorem unrecorded_session_refused:
  assumes "redis_laws (client ls) view" and "view w0 (createNamespacedKey ls v) = None"
    and "handler_getEndpoints (InstallHandler (Some (cfg n))) (getHost r) = Inr (Some eps)" and "k < length eps"
    and "request_Cookie r ''JSESSIONID'' = None" and "getHost r \<noteq> ''''"
    and "he_parseURL env (upstream_url (Address (eps ! k)) (Port (eps ! k)))"
    and "jsession_of (Header_Get (rw_header (proxy_ServeHTTP rt new_response)) ''Set-Cookie'') = Some v"
    and "getHost r' = getHost r" and "request_Cookie r' ''JSESSIONID'' = Some v"
  shows "\<exists>s oc seen seen'. (replicas_step env ord ls)\<^sup>*\<^sup>* (replicas_start cfg w0) s \<and>
     rs_threads s = [Request n r seen (AtAddCookie v (Address (eps ! k)) oc),
       Request n r' seen' (Answered (answer ''Upstream Service Went Away Error'' 503 True))] \<and>
     oc_response oc = proxy_ServeHTTP rt new_response"
proof -
  let ?e = "eps ! k" and ?hs = "\<lambda>m. InstallHandler (Some (cfg m))" and ?seen = "[Some (cfg n)]"
  let ?h = "(?hs n)\<lparr>proxyMap := AList.update (Address ?e) (upstream_url (Address ?e) (Port ?e)) (proxyMap (?hs n))\<rparr>"
  let ?oc = "forward (env\<lparr>he_roundTrip := \<lambda>_ _. rt\<rparr>) r (upstream_url (Address ?e) (Port ?e))"
  let ?R = "replicas_step env ord ls"
  let ?opened = "Request n r ?seen (AtAddCookie v (Address ?e) ?oc)" and ?q = "Request n r' ?seen"
  let ?gone = "answer ''Upstream Service Went Away Error'' 503 True"
  obtain w' where get: "rc_Get (client ls) (createNamespacedKey ls v) w0 = (Inl RedisNil, w')"
    using law_Get[OF assms(1), of "createNamespacedKey ls v" w0] assms(2) by (metis option.case(1) prod.collapse)
  have "handler_getEndpoints ?h (getHost r') = Inr (Some eps)"
    using assms(3,9) by (simp add: handler_getEndpoints_def InstallHandler_def)
  moreover have "eps \<noteq> []" using assms(4) by auto
  ultimately have act: "action_endpoints ?h r' 0 = AtGet v" and rand: "rand_in_range ?h r' 0"
    using assms(6,9,10) by (simp_all add: action_endpoints_def rand_in_range_def)
  have r1: "?R\<^sup>*\<^sup>* (replicas_start cfg w0) (running ?hs w0 [Request n r ?seen AtEndpoints])"
    using replicas_step.arrive[of env ord ls "replicas_start cfg w0" n r] by (auto simp: replicas_start_def InstallHandler_def)
  have r2: "?R (running ?hs w0 [Request n r ?seen AtEndpoints]) (running ?hs w0 [Request n r ?seen AtEndpoints, ?q AtEndpoints])"
    using replicas_step.arrive[of env ord ls "running ?hs w0 [Request n r ?seen AtEndpoints]" n r']
    by (simp add: InstallHandler_def)
  have r3: "?R\<^sup>*\<^sup>* (running ?hs w0 [Request n r ?seen AtEndpoints, ?q AtEndpoints]) (running (?hs(n := ?h)) w0 [?opened, ?q AtEndpoints])"
    using assms by (intro opening_run[where hs = ?hs and eps = eps and e = ?e and k = k]) (simp_all add: InstallHandler_def)
  have r4: "?R (running (?hs(n := ?h)) w0 [?opened, ?q AtEndpoints]) (running (?hs(n := ?h)) w0 [?opened, ?q (AtGet v)])"
    using step_at[of AtEndpoints "?hs(n := ?h)" n r' 0 rt env ls w0 "AtGet v" ?h w0 ord _ "[?opened]"] act rand by simp
  have r5: "?R (running (?hs(n := ?h)) w0 [?opened, ?q (AtGet v)]) (running (?hs(n := ?h)) w' [?opened, ?q (Answered ?gone)])"
    using step_at[of "AtGet v" "?hs(n := ?h)" n r' 0 rt env ls w0 "Answered ?gone" ?h w' ord _ "[?opened]"] get by simp
  note run = run_into[OF run_into[OF run_trans[OF run_into[OF r1 r2] r3] r4] r5]
  have "oc_response ?oc = proxy_ServeHTTP rt new_response" by (simp add: forward_def)
  with run show ?thesis
    by (intro exI[of _ "running (?hs(n := ?h)) w' [?opened, ?q (Answered ?gone)]"] exI[of _ ?oc] exI[of _ ?seen] conjI)
      (assumption, rule replicas.select_convs(4), assumption)
qed

section \<open>Instances\<close>

abbreviation example_answer :: roundtrip where
  "example_answer \<equiv> Upstream [(''Set-Cookie'', [''JSESSIONID=abc; path=/''])] 200 ''hello''"

lemma example_routed_request:
  "handler_getEndpoints (InstallHandler (Some example_config)) (getHost (example_request c)) = Inr (Some example_endpoints)"
  by (simp add: example_request_def) code_simp

lemma example_host: "getHost (example_request c) \<noteq> ''''" "getHost (example_request c) = getHost (example_request c')"
  by (simp add: example_request_def, code_simp) (simp add: example_request_def getHost_def)

lemma example_cookies:
  "request_Cookie (example_request []) ''JSESSIONID'' = None"
  "request_Cookie (example_request [''JSESSIONID=abc'']) ''JSESSIONID'' = Some ''abc''"
  by code_simp+

lemma example_opens:
  "jsession_of (Header_Get (rw_header (proxy_ServeHTTP example_answer new_response)) ''Set-Cookie'') = Some ''abc''"
  by code_simp

lemma example_session_key: "createNamespacedKey example_manager ''abc'' = ''WLS-ING:abc''"
  by code_simp

lemma example_parse: "he_parseURL example_env url"
  by (simp add: example_env_def)

lemma example_clean_laws: "clean_laws example_manager map_of rev"
  by (simp add: clean_laws_def example_client example_literal_namespace range_order_rev)

lemma example_second: "Address (example_endpoints ! Suc 0) = ''10.0.0.2''" "Suc 0 < length example_endpoints"
  by (simp_all add: example_endpoints_def)

lemma unrecorded_session_refused_witness:
  "\<exists>s oc seen seen'. (replicas_step example_env rev example_manager)\<^sup>*\<^sup>* (replicas_start (\<lambda>_. example_config) []) s \<and>
     rs_threads s = [Request 0 (example_request []) seen (AtAddCookie ''abc'' ''10.0.0.2'' oc),
       Request 0 (example_request [''JSESSIONID=abc'']) seen' (Answered (answer ''Upstream Service Went Away Error'' 503 True))] \<and>
     oc_response oc = proxy_ServeHTTP example_answer new_response"
proof -
  have none: "map_of [] (createNamespacedKey example_manager ''abc'') = None" by simp
  show ?thesis
    using unrecorded_session_refused[OF example_client none example_routed_request example_second(2) example_cookies(1)
        example_host(1) example_parse example_opens example_host(2) example_cookies(2), where ord = rev and n = 0]
    by (simp add: example_second(1) del: split_paired_Ex)
qed

abbreviation example_upstream :: string where
  "example_upstream \<equiv> upstream_url ''10.0.0.2'' (Port (example_endpoints ! Suc 0))"

abbreviation example_outcome :: "http_request \<Rightarrow> string \<Rightarrow> http_outcome" where
  "example_outcome r url \<equiv> forward (example_env\<lparr>he_roundTrip := \<lambda>_ _. example_answer\<rparr>) r url"

lemma example_opening:
  "(replicas_step example_env rev example_manager)\<^sup>*\<^sup>* (replicas_start (\<lambda>_. example_config) [])
     (running ((\<lambda>_. InstallHandler (Some example_config))(0 := (InstallHandler (Some example_config))\<lparr>proxyMap :=
          AList.update ''10.0.0.2'' example_upstream (proxyMap (InstallHandler (Some example_config)))\<rparr>)) []
       [Request 0 (example_request []) [Some example_config]
          (AtAddCookie ''abc'' ''10.0.0.2'' (example_outcome (example_request []) example_upstream))])"
proof -
  let ?r = "example_request []" and ?seen = "[Some example_config]" and ?hs = "\<lambda>_ :: nat. InstallHandler (Some example_config)"
  have r1: "(replicas_step example_env rev example_manager)\<^sup>*\<^sup>* (replicas_start (\<lambda>_. example_config) [])
      (running ?hs [] [Request 0 ?r ?seen AtEndpoints])"
    using replicas_step.arrive[of example_env rev example_manager "replicas_start (\<lambda>_. example_config) []" 0 ?r]
    by (auto simp: replicas_start_def InstallHandler_def)
  show ?thesis unfolding example_second(1)[symmetric]
    by (rule run_trans[OF r1 opening_run[where hs = ?hs and n = 0, OF example_routed_request example_second(2)
            example_cookies(1) example_host(1) refl _ example_parse example_opens]]) (simp_all add: InstallHandler_def)
qed

lemma example_configs_wf: "\<forall>n :: nat. config_wf example_config"
  by (simp add: config_wf_def example_config_def elems_def)


lemma concurrent_session_affinity_witness:
  "let oc = forward (example_env\<lparr>he_roundTrip := \<lambda>_ _. example_answer\<rparr>) (example_request [''JSESSIONID=abc''])
       (upstream_url ''10.0.0.2'' ''7001'')
   in (\<exists>p. oc_forwarded oc = [upstream_url ''10.0.0.2'' p]) \<or> oc \<in> set unrouted_answers"
proof -
  let ?r = "example_request []" and ?r' = "example_request [''JSESSIONID=abc'']" and ?seen = "[Some example_config]"
  let ?R = "replicas_step example_env rev example_manager" and ?cfg = "\<lambda>_ :: nat. example_config"
  let ?a = "''10.0.0.2''" and ?hs = "\<lambda>_ :: nat. InstallHandler (Some example_config)"
  let ?url = "upstream_url ?a (Port (example_endpoints ! Suc 0))"
  let ?e = "example_endpoints ! Suc 0" and ?env = "example_env\<lparr>he_roundTrip := \<lambda>_ _. example_answer\<rparr>"
  define h where "h = (?hs 0)\<lparr>proxyMap := AList.update ?a ?url (proxyMap (?hs 0))\<rparr>"
  define hs where "hs = ?hs(0 := h)"
  define oc where "oc = forward ?env ?r ?url"
  define oc' where "oc' = forward ?env ?r' (upstream_url ?a ''7001'')"
  define w1 where "w1 = [(''WLS-ING:abc'', ?a, time_Hour)]"
  define h' where "h' = (hs 1)\<lparr>proxyMap := AList.update ?a (upstream_url ?a ''7001'') (proxyMap (hs 1))\<rparr>"
  let ?rec = "Request 0 ?r ?seen (Recorded ''abc'' ?a oc)"
  have run: "?R\<^sup>*\<^sup>* (replicas_start ?cfg []) (running hs [] [Request 0 ?r ?seen (AtAddCookie ''abc'' ?a oc)])"
    unfolding hs_def h_def oc_def by (rule example_opening)
  have step: "?R (running hs [] [Request 0 ?r ?seen (AtAddCookie ''abc'' ?a oc)]) (running hs w1 [?rec])"
    using step_first[of "AtAddCookie ''abc'' ?a oc" hs 0 ?r 0 example_answer example_env example_manager "[]"
        "Recorded ''abc'' ?a oc" h w1 rev]
    by (simp add: hs_def w1_def AddCookie_def example_session_key) (simp add: example_manager_def example_redis_def)
  have r3: "?R\<^sup>*\<^sup>* (running hs w1 [?rec]) (running hs w1 [?rec, Request 1 ?r' ?seen AtEndpoints])"
    using replicas_step.arrive[of example_env rev example_manager "running hs w1 [?rec]" 1 ?r']
    by (auto simp: hs_def InstallHandler_def)
  have r4: "?R\<^sup>*\<^sup>* (running hs w1 [?rec, Request 1 ?r' ?seen AtEndpoints]) (running (hs(1 := h')) w1 [?rec, Request 1 ?r' ?seen (Answered oc')])"
    by (rule session_run[where a = ?a and eps = example_endpoints and v = "''abc''" and ?w1.0 = w1, OF _ _ example_host(1) example_cookies(2)])
      (simp_all add: hs_def h'_def oc'_def example_parse example_routed_request w1_def example_session_key,
       simp_all add: example_manager_def example_redis_def example_endpoints_def InstallHandler_def)
  note run2 = run_trans[OF r3 r4]
  have cl: "\<not> class_lookup ?r'" by code_simp
  have quiet: "quiet example_manager (createNamespacedKey example_manager ''abc'') ?a 0 D [?rec, Request 1 ?r' ?seen (Answered oc')]" for D
    by (simp add: quiet_def less_Suc_eq)
  have "(\<exists>p. oc_forwarded oc' = [upstream_url ?a p]) \<or> oc' \<in> set unrouted_answers"
    using concurrent_session_affinity[OF example_clean_laws example_configs_wf _ run step _ _ _ _ run2, of "''abc''" 0 0 ?r ?seen ?a oc ?seen 1 1 ?r' ?seen oc']
      quiet cl example_cookies(2) by simp
  then show ?thesis by (simp only: oc'_def Let_def)
qed

end
