(* ===== verification/Annotations.thy ===== *)
theory Annotations
  imports K8sTypes
begin

text \<open>
  The packages \<open>internal/ingress/errors\<close>, \<open>internal/ingress/annotations/parser\<close>, \<open>.../class\<close>,
  \<open>.../proxy\<close> and \<open>internal/ingress/annotations\<close>: which Ingress objects the controller
  serves, and how their annotations are read.

  An Ingress is passed by pointer; a nil pointer is \<open>None\<close>.
\<close>

section \<open>errors\<close>

text \<open>
  The two error variables are compared by identity, the three error types by their dynamic
  type; \<open>OtherError\<close> is any other error.
\<close>

datatype ann_error =
    ErrMissingAnnotations
  | ErrInvalidAnnotationName
  | InvalidConfiguration string
  | InvalidContent string
  | LocationDenied string
  | OtherError string

definition NewInvalidAnnotationConfiguration :: "string \<Rightarrow> string \<Rightarrow> ann_error" where
  "NewInvalidAnnotationConfiguration name reason =
     InvalidConfiguration (''the annotation '' @ name @ '' does not contain a valid configuration: '' @ reason)"

definition NewInvalidAnnotationContent :: "string \<Rightarrow> string \<Rightarrow> ann_error" where
  "NewInvalidAnnotationContent name val =
     InvalidContent (''the annotation '' @ name @ '' does not contain a valid value ('' @ val @ '')'')"

definition NewLocationDenied :: "string \<Rightarrow> ann_error" where
  "NewLocationDenied reason = LocationDenied (''Location denied, reason: '' @ reason)"

fun ann_Error :: "ann_error \<Rightarrow> string" where
  "ann_Error ErrMissingAnnotations = ''ingress rule without annotations''"
| "ann_Error ErrInvalidAnnotationName = ''invalid annotation name''"
| "ann_Error (InvalidConfiguration name) = name"
| "ann_Error (InvalidContent name) = name"
| "ann_Error (LocationDenied reason) = reason"
| "ann_Error (OtherError m) = m"

fun IsLocationDenied :: "ann_error \<Rightarrow> bool" where
  "IsLocationDenied (LocationDenied _) = True"
| "IsLocationDenied _ = False"

definition IsMissingAnnotations :: "ann_error \<Rightarrow> bool" where
  "IsMissingAnnotations e \<longleftrightarrow> e = ErrMissingAnnotations"

fun IsInvalidContent :: "ann_error \<Rightarrow> bool" where
  "IsInvalidContent (InvalidContent _) = True"
| "IsInvalidContent _ = False"

section \<open>parser\<close>

definition AnnotationsPrefix :: string where
  "AnnotationsPrefix = ''wls.ingress.kubernetes.io''"

definition normalizeString :: "string \<Rightarrow> string" where
  "normalizeString input = Join (map TrimSpace (Split input [CHR 0x0A])) [CHR 0x0A]"

definition parseBool :: "(string, string) go_map \<Rightarrow> string \<Rightarrow> ann_error + bool" where
  "parseBool a name =
     (case map_of a name of
        Some val \<Rightarrow> (case ParseBool val of
            None \<Rightarrow> Inl (NewInvalidAnnotationContent name val)
          | Some b \<Rightarrow> Inr b)
      | None \<Rightarrow> Inl ErrMissingAnnotations)"

definition parseString :: "(string, string) go_map \<Rightarrow> string \<Rightarrow> ann_error + string" where
  "parseString a name =
     (case map_of a name of
        Some val \<Rightarrow> (let s = normalizeString val in
            if s = '''' then Inl (NewInvalidAnnotationContent name val) else Inr s)
      | None \<Rightarrow> Inl ErrMissingAnnotations)"

definition parseInt :: "(string, string) go_map \<Rightarrow> string \<Rightarrow> ann_error + int" where
  "parseInt a name =
     (case map_of a name of
        Some val \<Rightarrow> (case Atoi val of
            None \<Rightarrow> Inl (NewInvalidAnnotationContent name val)
          | Some i \<Rightarrow> Inr i)
      | None \<Rightarrow> Inl ErrMissingAnnotations)"

definition ing_annotations :: "k8s_ingress option \<Rightarrow> (string, string) go_map" where
  "ing_annotations ing = (case ing of None \<Rightarrow> [] | Some i \<Rightarrow> om_annotations (ing_meta i))"

definition checkAnnotation :: "string \<Rightarrow> k8s_ingress option \<Rightarrow> ann_error option" where
  "checkAnnotation name ing =
     (if ing = None \<or> ing_annotations ing = [] then Some ErrMissingAnnotations
      else if name = '''' then Some ErrInvalidAnnotationName
      else None)"

definition GetAnnotationWithPrefix :: "string \<Rightarrow> string" where
  "GetAnnotationWithPrefix sfx = AnnotationsPrefix @ ''/'' @ sfx"

definition GetBoolAnnotation :: "string \<Rightarrow> k8s_ingress option \<Rightarrow> ann_error + bool" where
  "GetBoolAnnotation name ing =
     (let v = GetAnnotationWithPrefix name in
      case checkAnnotation v ing of
        Some err \<Rightarrow> Inl err
      | None \<Rightarrow> parseBool (ing_annotations ing) v)"

definition GetRawStringAnnotation :: "string \<Rightarrow> k8s_ingress option \<Rightarrow> ann_error + string" where
  "GetRawStringAnnotation name ing =
     (case checkAnnotation name ing of
        Some err \<Rightarrow> Inl err
      | None \<Rightarrow> parseString (ing_annotations ing) name)"

definition GetStringAnnotation :: "string \<Rightarrow> k8s_ingress option \<Rightarrow> ann_error + string" where
  "GetStringAnnotation name ing =
     (let v = GetAnnotationWithPrefix name in
      case checkAnnotation v ing of
        Some err \<Rightarrow> Inl err
      | None \<Rightarrow> parseString (ing_annotations ing) v)"

definition GetIntAnnotation :: "string \<Rightarrow> k8s_ingress option \<Rightarrow> ann_error + int" where
  "GetIntAnnotation name ing =
     (let v = GetAnnotationWithPrefix name in
      case checkAnnotation v ing of
        Some err \<Rightarrow> Inl err
      | None \<Rightarrow> parseInt (ing_annotations ing) v)"

section \<open>class\<close>

definition IngressKey :: string where
  "IngressKey = ''kubernetes.io/ingress.class''"

definition DefaultClass :: string where
  "DefaultClass = ''wls''"

text \<open>
  \<open>ingressClass\<close> is the package variable \<open>IngressClass\<close>, which a command line flag sets;
  its initial value is \<open>initial_IngressClass\<close>. The annotations of a nil Ingress cannot be read.
\<close>

definition initial_IngressClass :: string where
  "initial_IngressClass = ''wls''"

definition IsValid :: "string \<Rightarrow> k8s_ingress option \<Rightarrow> bool res" where
  "IsValid ingressClass ing =
     bind_res (deref ing) (\<lambda>i.
       let ingress = (case map_of (om_annotations (ing_meta i)) IngressKey of
                        None \<Rightarrow> '''' | Some v \<Rightarrow> v)
       in if ingress = '''' \<and> ingressClass = DefaultClass then Inr True
          else Inr (ingress = ingressClass))"

section \<open>proxy\<close>

record proxy_config =
  BodySize :: string
  ReadTimeout :: int

definition proxy_Config_Equal :: "proxy_config option \<Rightarrow> proxy_config option \<Rightarrow> bool" where
  "proxy_Config_Equal l1 l2 =
     (case (l1, l2) of
        (None, None) \<Rightarrow> True
      | (Some a, Some b) \<Rightarrow>
          if BodySize a \<noteq> BodySize b then False
          else if ReadTimeout a \<noteq> ReadTimeout b then False
          else True
      | _ \<Rightarrow> False)"

definition proxy_Parse :: "k8s_ingress option \<Rightarrow> proxy_config" where
  "proxy_Parse ing =
     \<lparr>BodySize = (case GetStringAnnotation ''proxy-body-size'' ing of Inl _ \<Rightarrow> ''10m'' | Inr s \<Rightarrow> s),
      ReadTimeout = (case GetIntAnnotation ''proxy-read-timeout'' ing of Inl _ \<Rightarrow> 300 | Inr i \<Rightarrow> i)\<rparr>"

section \<open>annotations\<close>

definition DeniedKeyName :: string where
  "DeniedKeyName = ''Denied''"

record parsed_ingress =
  pa_meta :: object_meta
  pa_Proxy :: proxy_config

text \<open>What a parser returns (\<open>None\<close> is a nil value), and what \<open>Extract\<close> collects.\<close>

type_synonym 'v annotation_parser = "k8s_ingress \<Rightarrow> 'v option \<times> ann_error option"

datatype 'v annotation_value = Parsed 'v | Denied string

type_synonym 'v annotation_data = "(string, 'v annotation_value) go_map"

text \<open>One iteration of the loop of \<open>Extract\<close>.\<close>

definition extract_one ::
  "k8s_ingress \<Rightarrow> string \<times> 'v annotation_parser \<Rightarrow> 'v annotation_data \<Rightarrow> 'v annotation_data" where
  "extract_one ing np data =
     (case np of (name, parser) \<Rightarrow>
       (case parser ing of (val, err) \<Rightarrow>
         let store = (case val of None \<Rightarrow> data | Some v \<Rightarrow> AList.update name (Parsed v) data) in
         (case err of
            None \<Rightarrow> store
          | Some e \<Rightarrow>
              if IsMissingAnnotations e then data
              else if \<not> IsLocationDenied e then data
              else if map_of data DeniedKeyName = None
              then AList.update DeniedKeyName (Denied (ann_Error e)) data
              else store)))"

text \<open>
  \<open>ord\<close> is the order in which Go ranges over the map of parsers, \<open>merge\<close> is
  \<open>mergo.MapWithOverwrite\<close>, which overwrites the fields its data names.
\<close>

definition Extract ::
  "((string \<times> 'v annotation_parser) list \<Rightarrow> (string \<times> 'v annotation_parser) list) \<Rightarrow>
   (parsed_ingress \<Rightarrow> 'v annotation_data \<Rightarrow> parsed_ingress) \<Rightarrow>
   (string, 'v annotation_parser) go_map \<Rightarrow> k8s_ingress \<Rightarrow> parsed_ingress" where
  "Extract ord merge parsers ing =
     merge \<lparr>pa_meta = ing_meta ing, pa_Proxy = \<lparr>BodySize = '''', ReadTimeout = 0\<rparr>\<rparr>
       (fold (extract_one ing) (ord parsers) [])"

definition NewAnnotationExtractor :: "(string, proxy_config annotation_parser) go_map" where
  "NewAnnotationExtractor = [(''Proxy'', \<lambda>ing. (Some (proxy_Parse (Some ing)), None))]"

text \<open>
  The documented effect of the merge on the one field the controller's parsers name, when
  that field still has its zero value (a field of the data that is empty overwrites nothing).
\<close>

definition merge_ok :: "(parsed_ingress \<Rightarrow> proxy_config annotation_data \<Rightarrow> parsed_ingress) \<Rightarrow> bool" where
  "merge_ok merge \<longleftrightarrow>
     (\<forall>p d c. pa_Proxy p = \<lparr>BodySize = '''', ReadTimeout = 0\<rparr> \<and> d = [(''Proxy'', Parsed c)] \<longrightarrow>
        merge p d = p\<lparr>pa_Proxy := c\<rparr>)"

section \<open>Facts\<close>

lemma IsValid_iff:
  "IsValid cls (Some i) =
     Inr ((case map_of (om_annotations (ing_meta i)) IngressKey of None \<Rightarrow> '''' | Some v \<Rightarrow> v)
          \<in> (if cls = DefaultClass then {cls, ''''} else {cls}))"
  by (auto simp: IsValid_def Let_def)

lemma checkAnnotation_prefixed:
  "checkAnnotation (GetAnnotationWithPrefix name) ing =
     (if ing_annotations ing = [] then Some ErrMissingAnnotations else None)"
  by (auto simp: checkAnnotation_def GetAnnotationWithPrefix_def ing_annotations_def)

lemma GetStringAnnotation_lookup:
  "GetStringAnnotation name ing = parseString (ing_annotations ing) (GetAnnotationWithPrefix name)"
  by (auto simp: GetStringAnnotation_def Let_def checkAnnotation_prefixed parseString_def
      split: option.splits)

lemma GetIntAnnotation_lookup:
  "GetIntAnnotation name ing = parseInt (ing_annotations ing) (GetAnnotationWithPrefix name)"
  by (auto simp: GetIntAnnotation_def Let_def checkAnnotation_prefixed parseInt_def
      split: option.splits)


section \<open>Properties\<close>


definition example_annotated :: "(string, string) go_map \<Rightarrow> k8s_ingress" where
  "example_annotated anns = \<lparr>ing_meta = \<lparr>om_namespace = ''default'', om_name = ''i'', om_annotations = anns,
     om_labels = [], om_creationTimestamp = 0\<rparr>, ing_rules = [], ing_loadBalancer = []\<rparr>"


text \<open>The parsed proxy settings of an Ingress. The read timeout is the integer of its
  annotation, 300 when that is missing or no integer; the body size is the trimmed text of
  its annotation with every line trimmed, 10m when that is missing or blank.\<close>

lemma Extract_proxy_settings:
  assumes "merge_ok merge" and "range_order ord"
  shows "Extract ord merge NewAnnotationExtractor ing = \<lparr>pa_meta = ing_meta ing, pa_Proxy = \<lparr>
     BodySize = (case map_of (om_annotations (ing_meta ing)) ''wls.ingress.kubernetes.io/proxy-body-size'' of
        None \<Rightarrow> ''10m''
      | Some v \<Rightarrow> if normalizeString v = '''' then ''10m'' else normalizeString v),
     ReadTimeout = (case map_of (om_annotations (ing_meta ing)) ''wls.ingress.kubernetes.io/proxy-read-timeout'' of
        None \<Rightarrow> 300
      | Some v \<Rightarrow> (case Atoi v of None \<Rightarrow> 300 | Some n \<Rightarrow> n))\<rparr>\<rparr>"
proof -
  have single: "ord [x] = [x]" for x
    using assms(2) unfolding range_order_def by (metis mset_single_iff mset.simps add_mset_eq_single mset_eq_setD)
  show ?thesis
    using assms(1)
    by (auto simp: Extract_def NewAnnotationExtractor_def single extract_one_def merge_ok_def proxy_Parse_def
        GetStringAnnotation_lookup GetIntAnnotation_lookup parseString_def parseInt_def
        GetAnnotationWithPrefix_def AnnotationsPrefix_def ing_annotations_def Let_def split: option.splits)
qed


end
