(* ===== verification/Upstreams.thy ===== *)
theory Upstreams
  imports IngressTypes Annotations
begin

text \<open>
  How the controller turns Ingress objects into the configuration of the proxy:
  \<open>internal/ingress/controller/endpoints.go\<close>, \<open>util.go\<close> and the pure part of \<open>controller.go\<close>.

  \<open>storer\<close> is the read side of the interface \<open>store.Storer\<close>: the lookups of services and
  endpoints in the local caches. The loops of the source are recursive functions over the
  same lists; a nil pointer or an index out of range in a rule is a panic (\<open>Inl\<close>).
\<close>

section \<open>Model\<close>

record ingress =
  in_Ingress :: k8s_ingress
  in_ParsedAnnotations :: "parsed_ingress option"

record storer =
  st_GetService :: "string \<Rightarrow> service or_error"
  st_GetServiceEndpoints :: "string \<Rightarrow> k8s_endpoints or_error"

abbreviation in_meta :: "ingress \<Rightarrow> object_meta" where
  "in_meta i \<equiv> ing_meta (in_Ingress i)"

abbreviation in_rules :: "ingress \<Rightarrow> ingress_rule list" where
  "in_rules i \<equiv> ing_rules (in_Ingress i)"

subsection \<open>endpoints.go\<close>

text \<open>
  The state of the loops: the servers found so far, and the keys of the map
  \<open>processedUpstreamServers\<close>.
\<close>

type_synonym ups_state = "endpoint list \<times> string list"

primrec add_addresses :: "int \<Rightarrow> endpoint_address list \<Rightarrow> ups_state \<Rightarrow> ups_state" where
  "add_addresses targetPort [] s = s"
| "add_addresses targetPort (epAddress # rest) s =
     (let ep = JoinHostPort (ea_ip epAddress) (Itoa targetPort) in
      if ep \<in> set (snd s) then add_addresses targetPort rest s
      else add_addresses targetPort rest
        (fst s @ [\<lparr>Address = ea_ip epAddress, Port = Itoa targetPort, Target = ea_targetRef epAddress\<rparr>],
         ep # snd s))"

definition target_port :: "service_port \<Rightarrow> endpoint_port \<Rightarrow> int" where
  "target_port port epPort =
     (if sp_name port = '''' then epp_port epPort
      else if sp_name port = epp_name epPort then epp_port epPort
      else 0)"

primrec add_ports ::
  "service_port \<Rightarrow> string \<Rightarrow> endpoint_address list \<Rightarrow> endpoint_port list \<Rightarrow> ups_state \<Rightarrow> ups_state" where
  "add_ports port proto addrs [] s = s"
| "add_ports port proto addrs (epPort # rest) s =
     (if epp_protocol epPort \<noteq> proto then add_ports port proto addrs rest s
      else (let targetPort = target_port port epPort in
        if targetPort \<le> 0 then add_ports port proto addrs rest s
        else add_ports port proto addrs rest (add_addresses targetPort addrs s)))"

primrec add_subsets ::
  "service_port \<Rightarrow> string \<Rightarrow> endpoint_subset list \<Rightarrow> ups_state \<Rightarrow> ups_state" where
  "add_subsets port proto [] s = s"
| "add_subsets port proto (ss # rest) s =
     add_subsets port proto rest (add_ports port proto (ss_addresses ss) (ss_ports ss) s)"

definition external_endpoints :: "k8s_lib \<Rightarrow> service \<Rightarrow> service_port \<Rightarrow> endpoint list" where
  "external_endpoints lib s port =
     (let targetPort = lib_intstr_IntValue lib (sp_targetPort port) in
      if targetPort \<le> 0 then []
      else if \<not> ParseIP (svc_externalName s) \<and> \<not> lib_lookupHost lib (svc_externalName s) then []
      else [\<lparr>Address = svc_externalName s, Port = Itoa targetPort, Target = None\<rparr>])"

definition getEndpoints ::
  "k8s_lib \<Rightarrow> service option \<Rightarrow> service_port option \<Rightarrow> string \<Rightarrow>
   (string \<Rightarrow> k8s_endpoints or_error) \<Rightarrow> endpoint list" where
  "getEndpoints lib sp pp proto getServiceEndpoints =
     (case (sp, pp) of
        (Some s, Some port) \<Rightarrow>
          if svc_type s = ServiceTypeExternalName then external_endpoints lib s port
          else (case getServiceEndpoints (MetaNamespaceKey lib (svc_meta s)) of
             Inl _ \<Rightarrow> []
           | Inr ep \<Rightarrow> fst (add_subsets port proto (eps_subsets ep) ([], [])))
      | _ \<Rightarrow> [])"

subsection \<open>util.go\<close>

text \<open>The zero value of \<open>Service\<close>.\<close>

definition empty_service :: service where
  "empty_service = \<lparr>
     svc_meta = \<lparr>om_namespace = '''', om_name = '''', om_annotations = [], om_labels = [],
                 om_creationTimestamp = 0\<rparr>,
     svc_type = '''', svc_externalName = '''', svc_externalIPs = [], svc_ports = [],
     svc_loadBalancer = []\<rparr>"

definition newUpstream :: "string \<Rightarrow> backend" where
  "newUpstream name = \<lparr>be_Name = name, be_Service = Some empty_service, be_Endpoints = Some []\<rparr>"

definition upstreamName :: "k8s_lib \<Rightarrow> string \<Rightarrow> string \<Rightarrow> int_or_string \<Rightarrow> string" where
  "upstreamName lib namespace service port =
     namespace @ ''-'' @ service @ ''-'' @ lib_intstr_String lib port"

subsection \<open>controller.go\<close>

definition port_matches :: "k8s_lib \<Rightarrow> string \<Rightarrow> service_port \<Rightarrow> bool" where
  "port_matches lib backendPort servicePort \<longleftrightarrow>
     Itoa (sp_port servicePort) = backendPort
     \<or> lib_intstr_String lib (sp_targetPort servicePort) = backendPort
     \<or> sp_name servicePort = backendPort"

definition serviceEndpoints ::
  "k8s_lib \<Rightarrow> storer \<Rightarrow> string \<Rightarrow> string \<Rightarrow> endpoint slice \<times> go_error option" where
  "serviceEndpoints lib st svcKey backendPort =
     (case st_GetService st svcKey of
        Inl err \<Rightarrow> (None, Some err)
      | Inr svc \<Rightarrow>
          if svc_type svc = ServiceTypeExternalName then
            (case Atoi backendPort of
               None \<Rightarrow> (None, None)
             | Some externalPort \<Rightarrow>
                 (let servicePort = \<lparr>sp_name = '''', sp_protocol = ''TCP'',
                        sp_port = int32_of externalPort, sp_targetPort = StrVal backendPort\<rparr>;
                      endps = getEndpoints lib (Some svc) (Some servicePort) ProtocolTCP
                        (st_GetServiceEndpoints st)
                  in if endps = [] then (None, None) else (go_append None endps, None)))
          else (case find (port_matches lib backendPort) (svc_ports svc) of
               None \<Rightarrow> (None, None)
             | Some servicePort \<Rightarrow>
                 (go_append None (getEndpoints lib (Some svc) (Some servicePort) ProtocolTCP
                    (st_GetServiceEndpoints st)), None)))"

text \<open>\<open>rule.IngressRuleValue.HTTP.Paths[0].Backend\<close>\<close>

definition rule_backend :: "ingress_rule \<Rightarrow> ingress_backend res" where
  "rule_backend rule =
     bind_res (deref (ir_http rule)) (\<lambda>paths.
     bind_res (go_index (Some paths) 0) (\<lambda>p. Inr (hp_backend p)))"

definition rule_upstream_name :: "k8s_lib \<Rightarrow> string \<Rightarrow> ingress_rule \<Rightarrow> string res" where
  "rule_upstream_name lib ns rule =
     bind_res (rule_backend rule) (\<lambda>b.
       Inr (upstreamName lib ns (ib_serviceName b) (ib_servicePort b)))"

text \<open>The backend that \<open>createUpstreams\<close> builds for one rule.\<close>

definition build_upstream :: "k8s_lib \<Rightarrow> storer \<Rightarrow> string \<Rightarrow> ingress_backend \<Rightarrow> backend" where
  "build_upstream lib st ns b =
     (let defBackend = upstreamName lib ns (ib_serviceName b) (ib_servicePort b);
          up = newUpstream defBackend;
          svcKey = ns @ ''/'' @ ib_serviceName b;
          endps = fst (serviceEndpoints lib st svcKey (lib_intstr_String lib (ib_servicePort b)));
          up' = up\<lparr>be_Endpoints := go_append (be_Endpoints up) (elems endps)\<rparr>
      in up'\<lparr>be_Service := (case st_GetService st svcKey of Inl _ \<Rightarrow> None | Inr s \<Rightarrow> Some s)\<rparr>)"

definition upstream_of_rule ::
  "k8s_lib \<Rightarrow> storer \<Rightarrow> string \<Rightarrow> ingress_rule \<Rightarrow> (string, backend) go_map
     \<Rightarrow> (string, backend) go_map res" where
  "upstream_of_rule lib st ns rule upstreams =
     bind_res (rule_backend rule) (\<lambda>b.
       let up = build_upstream lib st ns b in Inr (AList.update (be_Name up) up upstreams))"

definition createUpstreams ::
  "k8s_lib \<Rightarrow> storer \<Rightarrow> ingress list \<Rightarrow> (string, backend) go_map res" where
  "createUpstreams lib st ings =
     fold_res (\<lambda>ing. fold_res (upstream_of_rule lib st (om_namespace (in_meta ing))) (in_rules ing))
       ings []"

text \<open>A host maps to a pointer; a missing upstream would be a nil pointer.\<close>

definition server_of_rule ::
  "k8s_lib \<Rightarrow> (string, backend) go_map \<Rightarrow> string \<Rightarrow> ingress_rule \<Rightarrow> (string, backend option) go_map
     \<Rightarrow> (string, backend option) go_map res" where
  "server_of_rule lib upstreams ns rule servers =
     (if ir_host rule = '''' then Inr servers
      else if map_of servers (ir_host rule) \<noteq> None then Inr servers
      else bind_res (rule_upstream_name lib ns rule) (\<lambda>defUpstream.
        Inr (AList.update (ir_host rule) (map_of upstreams defUpstream) servers)))"

definition createServers ::
  "k8s_lib \<Rightarrow> ingress list \<Rightarrow> (string, backend) go_map \<Rightarrow> (string, backend option) go_map res" where
  "createServers lib ings upstreams =
     fold_res (\<lambda>ing. fold_res (server_of_rule lib upstreams (om_namespace (in_meta ing))) (in_rules ing))
       ings []"

text \<open>\<open>ord\<close> is the order in which Go ranges over the map of servers.\<close>

definition getConfiguration ::
  "((string \<times> backend option) list \<Rightarrow> (string \<times> backend option) list) \<Rightarrow>
   k8s_lib \<Rightarrow> storer \<Rightarrow> ingress list \<Rightarrow> configuration res" where
  "getConfiguration ord lib st ings =
     bind_res (createUpstreams lib st ings) (\<lambda>upstreams.
     bind_res (createServers lib ings upstreams) (\<lambda>servers.
       Inr \<lparr>Services = go_append None
              (map (\<lambda>(hostname, b). Some \<lparr>cb_Backend = b, cb_Hostname = hostname\<rparr>) (ord servers)),
            ControllerPodsCount = 0\<rparr>))"

section \<open>The servers of a service\<close>

definition server_key :: "endpoint \<Rightarrow> string \<times> string" where
  "server_key e = (Address e, Port e)"

text \<open>The servers a list of subsets offers on a port: every ready address, for every port of
  the right protocol that the service port selects.\<close>

definition port_servers ::
  "service_port \<Rightarrow> string \<Rightarrow> endpoint_address list \<Rightarrow> endpoint_port list \<Rightarrow> (string \<times> string) set" where
  "port_servers port proto addrs ports =
     (\<Union>p \<in> {p \<in> set ports. epp_protocol p = proto \<and> 0 < target_port port p}.
        (\<lambda>a. (ea_ip a, Itoa (target_port port p))) ` set addrs)"

definition subset_servers :: "service_port \<Rightarrow> string \<Rightarrow> endpoint_subset list \<Rightarrow> (string \<times> string) set" where
  "subset_servers port proto subsets =
     (\<Union>ss \<in> set subsets. port_servers port proto (ss_addresses ss) (ss_ports ss))"

text \<open>The invariant of the three loops.\<close>

definition ups_ok :: "ups_state \<Rightarrow> bool" where
  "ups_ok s \<longleftrightarrow>
     set (snd s) = (\<lambda>e. JoinHostPort (Address e) (Port e)) ` set (fst s) \<and>
     distinct (map server_key (fst s)) \<and> (\<forall>e \<in> set (fst s). CHR '':'' \<notin> set (Port e))"

lemma ups_ok_seen:
  assumes "ups_ok s"
  shows "JoinHostPort ip (Itoa n) \<in> set (snd s) \<longleftrightarrow> (ip, Itoa n) \<in> server_key ` set (fst s)"
proof -
  have "JoinHostPort ip (Itoa n) = JoinHostPort (Address e) (Port e) \<longleftrightarrow> (ip, Itoa n) = server_key e"
    if "e \<in> set (fst s)" for e
    using assms that by (simp add: ups_ok_def server_key_def JoinHostPort_inject Itoa_no_colon)
  with assms show ?thesis by (auto simp: ups_ok_def image_iff)
qed

lemma add_addresses_ok:
  "ups_ok s \<Longrightarrow> ups_ok (add_addresses tp addrs s) \<and>
     server_key ` set (fst (add_addresses tp addrs s)) =
     server_key ` set (fst s) \<union> (\<lambda>a. (ea_ip a, Itoa tp)) ` set addrs"
proof (induction addrs arbitrary: s)
  case Nil
  then show ?case by simp
next
  case (Cons a addrs)
  let ?e = "\<lparr>Address = ea_ip a, Port = Itoa tp, Target = ea_targetRef a\<rparr>"
  let ?k = "JoinHostPort (ea_ip a) (Itoa tp)"
  show ?case
  proof (cases "?k \<in> set (snd s)")
    case True
    with Cons.prems have "(ea_ip a, Itoa tp) \<in> server_key ` set (fst s)" by (simp add: ups_ok_seen)
    with True Cons.IH[OF Cons.prems] show ?thesis by auto
  next
    case False
    with Cons.prems have "(ea_ip a, Itoa tp) \<notin> server_key ` set (fst s)" by (simp add: ups_ok_seen)
    with Cons.prems have "ups_ok (fst s @ [?e], ?k # snd s)"
      by (auto simp: ups_ok_def server_key_def Itoa_no_colon)
    from Cons.IH[OF this] False show ?thesis by (auto simp: server_key_def)
  qed
qed

lemma port_servers_Cons:
  "port_servers port proto addrs (p # ports) =
     (if epp_protocol p = proto \<and> 0 < target_port port p
      then (\<lambda>a. (ea_ip a, Itoa (target_port port p))) ` set addrs else {})
     \<union> port_servers port proto addrs ports"
  by (auto simp: port_servers_def)

lemma add_ports_ok:
  "ups_ok s \<Longrightarrow> ups_ok (add_ports port proto addrs ports s) \<and>
     server_key ` set (fst (add_ports port proto addrs ports s)) =
     server_key ` set (fst s) \<union> port_servers port proto addrs ports"
proof (induction ports arbitrary: s)
  case Nil
  then show ?case by (simp add: port_servers_def)
next
  case (Cons p ports)
  show ?case
  proof (cases "epp_protocol p = proto \<and> 0 < target_port port p")
    case True
    note * = add_addresses_ok[OF Cons.prems, of "target_port port p" addrs]
    from Cons.IH[of "add_addresses (target_port port p) addrs s"] * True show ?thesis
      by (simp add: Let_def port_servers_Cons Un_assoc)
  next
    case False
    with Cons.IH[OF Cons.prems] show ?thesis by (auto simp: Let_def port_servers_Cons)
  qed
qed

lemma add_subsets_ok:
  "ups_ok s \<Longrightarrow> ups_ok (add_subsets port proto subsets s) \<and>
     server_key ` set (fst (add_subsets port proto subsets s)) =
     server_key ` set (fst s) \<union> subset_servers port proto subsets"
proof (induction subsets arbitrary: s)
  case Nil
  then show ?case by (simp add: subset_servers_def)
next
  case (Cons ss subsets)
  note * = add_ports_ok[OF Cons.prems, of port proto "ss_addresses ss" "ss_ports ss"]
  from Cons.IH[of "add_ports port proto (ss_addresses ss) (ss_ports ss) s"] * show ?case
    by (simp add: subset_servers_def Un_assoc)
qed

section \<open>Rules\<close>

text \<open>A rule that forwards somewhere: it has an HTTP part with a path.\<close>

definition rule_ok :: "ingress_rule \<Rightarrow> bool" where
  "rule_ok rule \<longleftrightarrow> (case ir_http rule of Some (p # ps) \<Rightarrow> True | _ \<Rightarrow> False)"

definition rules_ok :: "ingress list \<Rightarrow> bool" where
  "rules_ok ings \<longleftrightarrow> (\<forall>ing \<in> set ings. \<forall>rule \<in> set (in_rules ing). rule_ok rule)"

definition first_backend :: "ingress_rule \<Rightarrow> ingress_backend" where
  "first_backend rule = hp_backend (hd (the (ir_http rule)))"

text \<open>All rules in the order the loops visit them, with the namespace of their Ingress.\<close>

definition all_rules :: "ingress list \<Rightarrow> (string \<times> ingress_rule) list" where
  "all_rules ings = concat (map (\<lambda>ing. map (Pair (om_namespace (in_meta ing))) (in_rules ing)) ings)"

definition rule_name :: "k8s_lib \<Rightarrow> string \<times> ingress_rule \<Rightarrow> string" where
  "rule_name lib nr = upstreamName lib (fst nr) (ib_serviceName (first_backend (snd nr)))
     (ib_servicePort (first_backend (snd nr)))"

definition rule_upstream :: "k8s_lib \<Rightarrow> storer \<Rightarrow> string \<times> ingress_rule \<Rightarrow> backend" where
  "rule_upstream lib st nr = build_upstream lib st (fst nr) (first_backend (snd nr))"

lemma rule_backend_ok: "rule_ok rule \<Longrightarrow> rule_backend rule = Inr (first_backend rule)"
  by (auto simp: rule_ok_def rule_backend_def first_backend_def split: option.splits list.splits)

lemma rule_backend_panics: "\<not> rule_ok rule \<Longrightarrow> \<exists>p. rule_backend rule = Inl p"
  by (auto simp: rule_ok_def rule_backend_def split: option.splits list.splits)

lemma rules_ok_all: "rules_ok ings \<Longrightarrow> nr \<in> set (all_rules ings) \<Longrightarrow> rule_ok (snd nr)"
  by (auto simp: rules_ok_def all_rules_def)

lemma fold_rules:
  "fold_res (\<lambda>ing. fold_res (f (om_namespace (in_meta ing))) (in_rules ing)) ings s =
     fold_res (\<lambda>nr. f (fst nr) (snd nr)) (all_rules ings) s"
proof (induction ings arbitrary: s)
  case Nil
  then show ?case by (simp add: all_rules_def)
next
  case (Cons ing ings)
  then show ?case by (simp add: all_rules_def fold_res_append fold_res_map bind_res_def split: sum.splits)
qed

lemma be_Name_build_upstream [simp]:
  "be_Name (build_upstream lib st ns b) = upstreamName lib ns (ib_serviceName b) (ib_servicePort b)"
  by (simp add: build_upstream_def newUpstream_def Let_def)

lemma be_Endpoints_build_upstream:
  "be_Endpoints (build_upstream lib st ns b) =
     Some (elems (fst (serviceEndpoints lib st (ns @ ''/'' @ ib_serviceName b)
        (lib_intstr_String lib (ib_servicePort b)))))"
  by (simp add: build_upstream_def newUpstream_def Let_def)

text \<open>Of two rules with the same upstream name, the later one builds the upstream.\<close>

lemma upstreams_of_rules:
  assumes "\<forall>nr \<in> set rs. rule_ok (snd nr)" and "distinct (map fst m)"
  shows "\<exists>ups. fold_res (\<lambda>nr. upstream_of_rule lib st (fst nr) (snd nr)) rs m = Inr ups \<and>
     distinct (map fst ups) \<and>
     map_of ups = (\<lambda>name. case find (\<lambda>nr. rule_name lib nr = name) (rev rs) of
        Some nr \<Rightarrow> Some (rule_upstream lib st nr) | None \<Rightarrow> map_of m name)"
  using assms
proof (induction rs arbitrary: m)
  case Nil
  then show ?case by simp
next
  case (Cons nr rs)
  let ?m = "AList.update (rule_name lib nr) (rule_upstream lib st nr) m"
  have step: "upstream_of_rule lib st (fst nr) (snd nr) m = Inr ?m"
    using Cons.prems by (simp add: upstream_of_rule_def rule_backend_ok rule_name_def rule_upstream_def Let_def)
  from Cons.IH[of ?m] Cons.prems obtain ups where ups:
    "fold_res (\<lambda>nr. upstream_of_rule lib st (fst nr) (snd nr)) rs ?m = Inr ups"
    "distinct (map fst ups)"
    "map_of ups = (\<lambda>name. case find (\<lambda>nr. rule_name lib nr = name) (rev rs) of
        Some nr \<Rightarrow> Some (rule_upstream lib st nr) | None \<Rightarrow> map_of ?m name)"
    by (auto simp: distinct_update)
  with step show ?case
    by (auto simp: fun_eq_iff update_conv' find_append split: option.splits)
qed

section \<open>Servers\<close>

text \<open>The rule that serves a host: the first one that names it.\<close>

definition route :: "ingress list \<Rightarrow> string \<Rightarrow> (string \<times> ingress_rule) option" where
  "route ings host =
     (if host = '''' then None else find (\<lambda>nr. ir_host (snd nr) = host) (all_rules ings))"

text \<open>The rule whose upstream is kept under a name: the last one that builds it.\<close>

definition builder :: "k8s_lib \<Rightarrow> ingress list \<Rightarrow> string \<Rightarrow> (string \<times> ingress_rule) option" where
  "builder lib ings name = find (\<lambda>nr. rule_name lib nr = name) (rev (all_rules ings))"

text \<open>No two services of the rules share an upstream name.\<close>

definition unambiguous :: "k8s_lib \<Rightarrow> ingress list \<Rightarrow> bool" where
  "unambiguous lib ings \<longleftrightarrow>
     (\<forall>x \<in> set (all_rules ings). \<forall>y \<in> set (all_rules ings).
        rule_name lib x = rule_name lib y \<longrightarrow>
        fst x = fst y \<and>
        ib_serviceName (first_backend (snd x)) = ib_serviceName (first_backend (snd y)) \<and>
        lib_intstr_String lib (ib_servicePort (first_backend (snd x))) =
        lib_intstr_String lib (ib_servicePort (first_backend (snd y))))"

lemma rule_upstream_cong:
  assumes "fst x = fst y"
    and "ib_serviceName (first_backend (snd x)) = ib_serviceName (first_backend (snd y))"
    and "lib_intstr_String lib (ib_servicePort (first_backend (snd x))) =
         lib_intstr_String lib (ib_servicePort (first_backend (snd y)))"
  shows "rule_upstream lib st x = rule_upstream lib st y"
  using assms by (simp add: rule_upstream_def build_upstream_def upstreamName_def)

lemma rule_upstream_name_ok:
  "rule_ok rule \<Longrightarrow> rule_upstream_name lib ns rule = Inr (rule_name lib (ns, rule))"
  by (simp add: rule_upstream_name_def rule_backend_ok rule_name_def)

lemma servers_of_rules:
  assumes "\<forall>nr \<in> set rs. rule_ok (snd nr)" and "distinct (map fst m)"
  shows "\<exists>servers. fold_res (\<lambda>nr. server_of_rule lib ups (fst nr) (snd nr)) rs m = Inr servers \<and>
     distinct (map fst servers) \<and>
     map_of servers = (\<lambda>host. case map_of m host of
        Some x \<Rightarrow> Some x
      | None \<Rightarrow> if host = '''' then None
          else map_option (\<lambda>nr. map_of ups (rule_name lib nr)) (find (\<lambda>nr. ir_host (snd nr) = host) rs))"
  using assms
proof (induction rs arbitrary: m)
  case Nil
  then show ?case by (auto split: option.splits)
next
  case (Cons nr rs)
  let ?skip = "ir_host (snd nr) = '''' \<or> map_of m (ir_host (snd nr)) \<noteq> None"
  let ?m = "if ?skip then m else AList.update (ir_host (snd nr)) (map_of ups (rule_name lib nr)) m"
  have step: "server_of_rule lib ups (fst nr) (snd nr) m = Inr ?m"
    using Cons.prems by (simp add: server_of_rule_def rule_upstream_name_ok)
  have dist: "distinct (map fst ?m)" using Cons.prems(2) by (simp add: distinct_update)
  have ok: "\<forall>nr \<in> set rs. rule_ok (snd nr)" using Cons.prems(1) by simp
  from Cons.IH[OF ok dist] obtain servers where s:
    "fold_res (\<lambda>nr. server_of_rule lib ups (fst nr) (snd nr)) rs ?m = Inr servers"
    "distinct (map fst servers)"
    "map_of servers = (\<lambda>host. case map_of ?m host of
        Some x \<Rightarrow> Some x
      | None \<Rightarrow> if host = '''' then None
          else map_option (\<lambda>nr. map_of ups (rule_name lib nr)) (find (\<lambda>nr. ir_host (snd nr) = host) rs))"
    by blast
  have "(case map_of ?m host of
        Some x \<Rightarrow> Some x
      | None \<Rightarrow> if host = '''' then None
          else map_option (\<lambda>nr. map_of ups (rule_name lib nr)) (find (\<lambda>nr. ir_host (snd nr) = host) rs)) =
     (case map_of m host of
        Some x \<Rightarrow> Some x
      | None \<Rightarrow> if host = '''' then None
          else map_option (\<lambda>nr. map_of ups (rule_name lib nr)) (find (\<lambda>nr. ir_host (snd nr) = host) (nr # rs)))"
    for host by (auto simp: update_conv' split: option.splits)
  with s step show ?case by auto
qed

text \<open>With well-formed rules, the two passes succeed; each host gets the upstream kept under
  the name of its rule.\<close>

lemma createServers_total:
  assumes "rules_ok ings"
  obtains ups servers where "createUpstreams lib st ings = Inr ups"
    and "createServers lib ings ups = Inr servers" and "distinct (map fst servers)"
    and "map_of servers = (\<lambda>host. map_option
       (\<lambda>nr. map_option (rule_upstream lib st) (builder lib ings (rule_name lib nr))) (route ings host))"
proof -
  have ok: "\<forall>nr \<in> set (all_rules ings). rule_ok (snd nr)" using assms rules_ok_all by blast
  from upstreams_of_rules[OF ok, of "[]" lib st] obtain ups where
    u: "createUpstreams lib st ings = Inr ups"
    "map_of ups = (\<lambda>name. map_option (rule_upstream lib st) (builder lib ings name))"
    by (auto simp: createUpstreams_def fold_rules builder_def map_option_case cong: option.case_cong)
  from servers_of_rules[OF ok, of "[]" lib ups] obtain servers where
    s: "createServers lib ings ups = Inr servers" "distinct (map fst servers)"
    "map_of servers = (\<lambda>host. map_option
       (\<lambda>nr. map_option (rule_upstream lib st) (builder lib ings (rule_name lib nr))) (route ings host))"
    by (auto simp: createServers_def fold_rules route_def fun_eq_iff u(2))
  from that[OF u(1) s] show thesis .
qed

lemma route_in_rules: "route ings host = Some nr \<Longrightarrow> nr \<in> set (all_rules ings) \<and> ir_host (snd nr) = host"
  by (auto simp: route_def dest: find_SomeD split: if_splits)

lemma builder_exists:
  assumes "nr \<in> set (all_rules ings)"
  shows "\<exists>y. builder lib ings (rule_name lib nr) = Some y \<and> y \<in> set (all_rules ings) \<and>
     rule_name lib y = rule_name lib nr"
proof (cases "builder lib ings (rule_name lib nr)")
  case None
  then have "\<not> (\<exists>x. x \<in> set (rev (all_rules ings)) \<and> rule_name lib x = rule_name lib nr)"
    unfolding builder_def find_None_iff .
  with assms have False unfolding set_rev by blast
  then show ?thesis ..
next
  case (Some y)
  then have "y \<in> set (rev (all_rules ings)) \<and> rule_name lib y = rule_name lib nr"
    unfolding builder_def by (rule find_SomeD)
  with Some show ?thesis by simp
qed

lemma builder_unambiguous:
  assumes "unambiguous lib ings" and "nr \<in> set (all_rules ings)"
  shows "map_option (rule_upstream lib st) (builder lib ings (rule_name lib nr)) =
     Some (rule_upstream lib st nr)"
  using builder_exists[OF assms(2), of lib] assms
  by (auto simp: unambiguous_def intro!: rule_upstream_cong)

section \<open>Configurations\<close>

definition service_entry :: "string \<times> backend option \<Rightarrow> configuration_backend option" where
  "service_entry hb = Some \<lparr>cb_Backend = snd hb, cb_Hostname = fst hb\<rparr>"

lemma find_service_entry:
  "find (\<lambda>p. cb_Hostname (the p) = host) (map service_entry xs) =
     map_option (\<lambda>b. service_entry (host, b)) (map_of xs host)"
  by (induction xs) (auto simp: service_entry_def)

lemma getConfiguration_total:
  assumes "rules_ok ings"
  obtains servers where "getConfiguration ord lib st ings =
      Inr \<lparr>Services = go_append None (map service_entry (ord servers)), ControllerPodsCount = 0\<rparr>"
    and "distinct (map fst servers)"
    and "map_of servers = (\<lambda>host. map_option
       (\<lambda>nr. map_option (rule_upstream lib st) (builder lib ings (rule_name lib nr))) (route ings host))"
proof -
  obtain ups servers where s: "createUpstreams lib st ings = Inr ups"
    "createServers lib ings ups = Inr servers" "distinct (map fst servers)"
    "map_of servers = (\<lambda>host. map_option
       (\<lambda>nr. map_option (rule_upstream lib st) (builder lib ings (rule_name lib nr))) (route ings host))"
    using createServers_total[OF assms] by blast
  have "(\<lambda>(hostname, b). Some \<lparr>cb_Backend = b, cb_Hostname = hostname\<rparr>) = service_entry"
    by (auto simp: service_entry_def)
  with s show thesis by (intro that[of servers]) (simp_all add: getConfiguration_def)
qed

text \<open>The panic of a rule without an HTTP part stops the whole computation.\<close>

lemma fold_res_panics:
  "x \<in> set xs \<Longrightarrow> (\<And>s. \<exists>p. f x s = Inl p) \<Longrightarrow> \<exists>p. fold_res f xs s = Inl p"
proof (induction xs arbitrary: s)
  case Nil
  then show ?case by simp
next
  case (Cons y xs)
  show ?case
  proof (cases "f y s")
    case (Inl p)
    then show ?thesis by simp
  next
    case (Inr t)
    with Cons.prems(2) have "y \<noteq> x" by (metis Inl_Inr_False)
    with Cons Inr show ?thesis by auto
  qed
qed

lemma getConfiguration_panics:
  assumes "\<not> rules_ok ings"
  shows "\<exists>p. getConfiguration ord lib st ings = Inl p"
proof -
  from assms obtain ing rule where "ing \<in> set ings" "rule \<in> set (in_rules ing)" "\<not> rule_ok rule"
    by (auto simp: rules_ok_def)
  moreover define nr where "nr = (om_namespace (in_meta ing), rule)"
  ultimately have nr: "nr \<in> set (all_rules ings)" "\<not> rule_ok (snd nr)"
    by (auto simp: all_rules_def)
  have "\<exists>p. upstream_of_rule lib st (fst nr) (snd nr) m = Inl p" for m
    using rule_backend_panics[OF nr(2)] by (auto simp: upstream_of_rule_def)
  then have "\<exists>p. createUpstreams lib st ings = Inl p"
    using fold_res_panics[OF nr(1), of "\<lambda>nr. upstream_of_rule lib st (fst nr) (snd nr)" "[]"]
    by (simp add: createUpstreams_def fold_rules)
  then show ?thesis by (auto simp: getConfiguration_def)
qed


section \<open>Properties\<close>

lemma getEndpoints_servers:
  assumes "svc_type s \<noteq> ServiceTypeExternalName"
    and "getServiceEndpoints (MetaNamespaceKey lib (svc_meta s)) = Inr ep"
  shows "server_key ` set (getEndpoints lib (Some s) (Some port) proto getServiceEndpoints) =
       subset_servers port proto (eps_subsets ep)"
proof -
  have "ups_ok ([], [])" by (simp add: ups_ok_def)
  from add_subsets_ok[OF this, of port proto "eps_subsets ep"] assms show ?thesis by (simp add: getEndpoints_def)
qed

text \<open>C24: \<open>getEndpoints\<close> is exact for a service with endpoints in the cache: the servers it
  returns are pairwise different, and they are all ready addresses with the ports of the
  protocol that the service port selects, each address and port once.\<close>

theorem getEndpoints_exact:
  assumes "svc_type s \<noteq> ServiceTypeExternalName"
    and "getServiceEndpoints (MetaNamespaceKey lib (svc_meta s)) = Inr ep"
  shows "distinct (map server_key (getEndpoints lib (Some s) (Some port) proto getServiceEndpoints)) \<and>
     server_key ` set (getEndpoints lib (Some s) (Some port) proto getServiceEndpoints) =
       subset_servers port proto (eps_subsets ep)"
proof -
  have "ups_ok ([], [])" by (simp add: ups_ok_def)
  note * = add_subsets_ok[OF this, of port proto "eps_subsets ep"]
  from * have "distinct (map server_key (fst (add_subsets port proto (eps_subsets ep) ([], []))))"
    by (simp add: ups_ok_def)
  with * assms show ?thesis by (simp add: getEndpoints_def)
qed

definition example_meta :: "string \<Rightarrow> string \<Rightarrow> object_meta" where
  "example_meta ns name = \<lparr>om_namespace = ns, om_name = name, om_annotations = [], om_labels = [],
     om_creationTimestamp = 0\<rparr>"

definition example_service :: "string \<Rightarrow> string \<Rightarrow> service" where
  "example_service ns name = empty_service\<lparr>svc_meta := example_meta ns name, svc_type := ''ClusterIP'',
     svc_ports := [\<lparr>sp_name = ''http'', sp_protocol = ''TCP'', sp_port = 80, sp_targetPort = IntVal 7001\<rparr>]\<rparr>"

definition example_k8s_endpoints :: "string list \<Rightarrow> k8s_endpoints" where
  "example_k8s_endpoints ips = \<lparr>eps_meta = example_meta ''default'' ''wls'', eps_subsets =
     [\<lparr>ss_addresses = map (\<lambda>ip. \<lparr>ea_ip = ip, ea_targetRef = None\<rparr>) ips,
       ss_ports = [\<lparr>epp_name = ''http'', epp_port = 7001, epp_protocol = ''TCP''\<rparr>,
                   \<lparr>epp_name = ''admin'', epp_port = 9002, epp_protocol = ''TCP''\<rparr>]\<rparr>]\<rparr>"

definition example_port :: service_port where
  "example_port = \<lparr>sp_name = ''http'', sp_protocol = ''TCP'', sp_port = 80, sp_targetPort = IntVal 7001\<rparr>"

lemma example_subset_servers:
  "subset_servers example_port ProtocolTCP (eps_subsets (example_k8s_endpoints ips)) = (\<lambda>ip. (ip, ''7001'')) ` set ips"
proof -
  have i: "Itoa 7001 = ''7001''" by code_simp
  have "{p \<in> set [\<lparr>epp_name = ''http'', epp_port = 7001, epp_protocol = ''TCP''\<rparr>,
        \<lparr>epp_name = ''admin'', epp_port = 9002, epp_protocol = ''TCP''\<rparr>].
      epp_protocol p = ProtocolTCP \<and> 0 < target_port example_port p} =
     {\<lparr>epp_name = ''http'', epp_port = 7001, epp_protocol = ''TCP''\<rparr>}"
    by (auto simp: target_port_def example_port_def)
  then show ?thesis
    unfolding subset_servers_def port_servers_def example_k8s_endpoints_def
    by (simp add: i target_port_def example_port_def image_image)
qed

lemma getEndpoints_exact_witness:
  "server_key ` set (getEndpoints example_lib (Some (example_service ''default'' ''wls'')) (Some example_port)
       ProtocolTCP (\<lambda>_. Inr (example_k8s_endpoints [''10.0.0.1'', ''10.0.0.2'', ''10.0.0.1'']))) =
   {(''10.0.0.1'', ''7001''), (''10.0.0.2'', ''7001'')}"
  using getEndpoints_exact[of "example_service ''default'' ''wls''"
      "\<lambda>_. Inr (example_k8s_endpoints [''10.0.0.1'', ''10.0.0.2'', ''10.0.0.1''])" example_lib _ example_port ProtocolTCP]
  by (simp add: example_service_def example_subset_servers insert_commute)

text \<open>C33: the configuration is computed exactly when every rule has an HTTP part with a path;
  otherwise the computation panics, in \<open>createUpstreams\<close> already.\<close>

theorem getConfiguration_panics_iff:
  "(\<exists>p. getConfiguration ord lib st ings = Inl p) \<longleftrightarrow>
     (\<exists>ing \<in> set ings. \<exists>rule \<in> set (in_rules ing). ir_http rule = None \<or> ir_http rule = Some [])"
proof -
  have "\<not> rule_ok rule \<longleftrightarrow> ir_http rule = None \<or> ir_http rule = Some []" for rule
    by (auto simp: rule_ok_def split: option.splits list.splits)
  then have ok: "\<not> rules_ok ings \<longleftrightarrow>
      (\<exists>ing \<in> set ings. \<exists>rule \<in> set (in_rules ing). ir_http rule = None \<or> ir_http rule = Some [])"
    by (auto simp: rules_ok_def)
  have "(\<exists>p. getConfiguration ord lib st ings = Inl p) \<longleftrightarrow> \<not> rules_ok ings"
    using getConfiguration_panics[of ings ord lib st] by (metis Inl_Inr_False getConfiguration_total)
  then show ?thesis by (simp only: ok)
qed

text \<open>No spurious reload. Whatever order Go ranges over the map of servers in, the
  configurations computed from the same Ingresses and caches are \<open>Equal\<close>.\<close>

lemma getConfiguration_order_irrelevant:
  assumes "range_order ord1" and "range_order ord2"
    and "getConfiguration ord1 lib st ings = Inr c1" and "getConfiguration ord2 lib st ings = Inr c2"
  shows "Configuration_Equal (Some c1) (Some c2)"
proof -
  from assms(3,4) obtain servers where "createUpstreams lib st ings \<noteq> Inl NilDereference"
    and c: "Services c1 = go_append None (map (\<lambda>(h, b). Some \<lparr>cb_Backend = b, cb_Hostname = h\<rparr>) (ord1 servers))"
    "Services c2 = go_append None (map (\<lambda>(h, b). Some \<lparr>cb_Backend = b, cb_Hostname = h\<rparr>) (ord2 servers))"
    by (auto simp: getConfiguration_def)
  have m: "mset (ord1 servers) = mset (ord2 servers)" using assms(1,2) by (simp add: range_order_def)
  then have "ord1 servers = [] \<longleftrightarrow> ord2 servers = []" by (metis mset_zero_iff)
  then have "compareServices (Services c1) (Services c2)"
    unfolding compareServices_def c using m
    by (intro cb_eq.compare_slices_perm) (auto simp: go_append_def)
  then show ?thesis by (simp add: equal_simps)
qed

definition example_rule :: "string \<Rightarrow> string \<Rightarrow> ingress_rule" where
  "example_rule host svc = \<lparr>ir_host = host, ir_http = Some [\<lparr>hp_path = ''/'',
     hp_backend = \<lparr>ib_serviceName = svc, ib_servicePort = IntVal 80\<rparr>\<rparr>]\<rparr>"

definition example_ingress :: "string \<Rightarrow> string \<Rightarrow> ingress_rule list \<Rightarrow> ingress" where
  "example_ingress ns name rules = \<lparr>in_Ingress = \<lparr>ing_meta = example_meta ns name, ing_rules = rules,
     ing_loadBalancer = []\<rparr>, in_ParsedAnnotations = None\<rparr>"

definition example_storer :: storer where
  "example_storer = \<lparr>
     st_GetService = (\<lambda>key. if key = ''default/wls'' then Inr (example_service ''default'' ''wls'')
                            else Inl ''no object matching key''),
     st_GetServiceEndpoints = (\<lambda>_. Inr (example_k8s_endpoints [''10.0.0.1'', ''10.0.0.2'']))\<rparr>"

end
