(* ===== verification/TaskQueue.thy ===== *)
theory TaskQueue
  imports Prelude
begin

text \<open>
  The package \<open>internal/task\<close>: the queue between the event loop and the synchronisation.

  The rate limited work queue of client-go is a parameter, the record \<open>workqueue\<close>;
  \<open>workqueue_laws\<close> states what is used of it (\<open>items q\<close> is the set of elements waiting in \<open>q\<close>,
  those held back by the rate limiter included). Readings of the clock are arguments, in
  nanoseconds. The worker takes an element, calls \<open>sync\<close> and settles the element; other
  goroutines enqueue while \<open>sync\<close> runs, so the model has the parts before and after the call
  as two functions, and \<open>queue_step\<close> interleaves them with the enqueuing goroutines.
\<close>

section \<open>Model\<close>

record element =
  el_Key :: string
  el_Timestamp :: int
  el_IsSkippable :: bool

text \<open>\<open>wq_Get\<close> is \<open>None\<close> while \<open>Get\<close> blocks.\<close>

record 'q workqueue =
  wq_Add :: "element \<Rightarrow> 'q \<Rightarrow> 'q"
  wq_AddRateLimited :: "element \<Rightarrow> 'q \<Rightarrow> 'q"
  wq_Get :: "'q \<Rightarrow> (element \<times> bool \<times> 'q) option"
  wq_Forget :: "element \<Rightarrow> 'q \<Rightarrow> 'q"
  wq_Done :: "element \<Rightarrow> 'q \<Rightarrow> 'q"
  wq_ShutDown :: "'q \<Rightarrow> 'q"
  wq_ShuttingDown :: "'q \<Rightarrow> bool"

text \<open>\<open>tq_workerDone\<close> says whether the channel is closed; nothing is ever sent on it.\<close>

record 'q task_queue =
  tq_queue :: 'q
  tq_workerDone :: bool
  tq_lastSync :: int

definition NewCustomTaskQueue :: "'q \<Rightarrow> 'q task_queue" where
  "NewCustomTaskQueue newQueue = \<lparr>tq_queue = newQueue, tq_workerDone = False, tq_lastSync = 0\<rparr>"

text \<open>
  \<open>keyFunc\<close> is that of client-go, \<open>format\<close> the \<open>%+v\<close> rendering of the object; a queue made without a
  key function (\<open>None\<close>) uses \<open>defaultKeyFunc\<close>.
\<close>

definition defaultKeyFunc :: "('o \<Rightarrow> string or_error) \<Rightarrow> ('o \<Rightarrow> string) \<Rightarrow> 'o \<Rightarrow> string or_error" where
  "defaultKeyFunc keyFunc format obj =
     (case keyFunc obj of
        Inl err \<Rightarrow> Inl (''could not get key for object '' @ format obj @ '': '' @ err)
      | Inr key \<Rightarrow> Inr key)"

definition queue_fn ::
  "('o \<Rightarrow> string or_error) \<Rightarrow> ('o \<Rightarrow> string) \<Rightarrow> ('o \<Rightarrow> string or_error) option \<Rightarrow> 'o \<Rightarrow> string or_error" where
  "queue_fn keyFunc format fn = (case fn of None \<Rightarrow> defaultKeyFunc keyFunc format | Some f \<Rightarrow> f)"

definition NewTaskQueue ::
  "('o \<Rightarrow> string or_error) \<Rightarrow> ('o \<Rightarrow> string) \<Rightarrow> 'q \<Rightarrow> 'q task_queue \<times> ('o \<Rightarrow> string or_error)" where
  "NewTaskQueue keyFunc format newQueue = (NewCustomTaskQueue newQueue, queue_fn keyFunc format None)"

definition IsShuttingDown :: "'q workqueue \<Rightarrow> 'q task_queue \<Rightarrow> bool" where
  "IsShuttingDown wq t = wq_ShuttingDown wq (tq_queue t)"

text \<open>Twenty-four hours, in nanoseconds.\<close>

definition day :: int where
  "day = 24 * 3600 * 10 ^ 9"

text \<open>\<open>now\<close> is the reading of the clock that decides the timestamp.\<close>

definition enqueue ::
  "'q workqueue \<Rightarrow> ('o \<Rightarrow> string or_error) \<Rightarrow> int \<Rightarrow> 'o \<Rightarrow> bool \<Rightarrow> 'q task_queue \<Rightarrow> 'q task_queue" where
  "enqueue wq fn now obj skippable t =
     (if IsShuttingDown wq t then t
      else (let ts = (if skippable then now else now + day) in
        case fn obj of
          Inl _ \<Rightarrow> t
        | Inr key \<Rightarrow> t\<lparr>tq_queue := wq_Add wq
            \<lparr>el_Key = key, el_Timestamp = ts, el_IsSkippable = False\<rparr> (tq_queue t)\<rparr>))"

definition EnqueueTask ::
  "'q workqueue \<Rightarrow> ('o \<Rightarrow> string or_error) \<Rightarrow> int \<Rightarrow> 'o \<Rightarrow> 'q task_queue \<Rightarrow> 'q task_queue" where
  "EnqueueTask wq fn now obj t = enqueue wq fn now obj False t"

definition EnqueueSkippableTask ::
  "'q workqueue \<Rightarrow> ('o \<Rightarrow> string or_error) \<Rightarrow> int \<Rightarrow> 'o \<Rightarrow> 'q task_queue \<Rightarrow> 'q task_queue" where
  "EnqueueSkippableTask wq fn now obj t = enqueue wq fn now obj True t"

text \<open>Receiving from \<open>workerDone\<close> succeeds when it is closed; closing it twice panics.\<close>

definition isClosed :: "bool \<Rightarrow> bool" where
  "isClosed ch = ch"

definition close_channel :: "bool \<Rightarrow> bool res" where
  "close_channel ch = (if ch then Inl CloseOfClosedChannel else Inr True)"

text \<open>
  One round of the worker's loop: up to the call of \<open>sync\<close> (\<open>ts\<close> is the reading taken before
  it), and from its return on (\<open>now\<close> is the reading when it failed).
\<close>

datatype worker_phase = Polling | Syncing element int | Exited

definition worker_item ::
  "'q workqueue \<Rightarrow> int \<Rightarrow> element \<Rightarrow> bool \<Rightarrow> 'q task_queue \<Rightarrow> ('q task_queue \<times> worker_phase) res" where
  "worker_item wq ts item quit t =
     (if quit then
        (if \<not> isClosed (tq_workerDone t)
         then bind_res (close_channel (tq_workerDone t)) (\<lambda>ch. Inr (t\<lparr>tq_workerDone := ch\<rparr>, Exited))
         else Inr (t, Exited))
      else if tq_lastSync t > el_Timestamp item
      then Inr (t\<lparr>tq_queue := wq_Done wq item (wq_Forget wq item (tq_queue t))\<rparr>, Polling)
      else Inr (t, Syncing item ts))"

definition worker_get ::
  "'q workqueue \<Rightarrow> int \<Rightarrow> 'q task_queue \<Rightarrow> ('q task_queue \<times> worker_phase) res option" where
  "worker_get wq ts t =
     (case wq_Get wq (tq_queue t) of
        None \<Rightarrow> None
      | Some (item, quit, q) \<Rightarrow> Some (worker_item wq ts item quit (t\<lparr>tq_queue := q\<rparr>)))"

definition worker_settle ::
  "'q workqueue \<Rightarrow> element \<Rightarrow> int \<Rightarrow> int \<Rightarrow> go_error option \<Rightarrow> 'q task_queue \<Rightarrow> 'q task_queue" where
  "worker_settle wq item ts now err t =
     (let t1 = (case err of
            Some _ \<Rightarrow> t\<lparr>tq_queue := wq_AddRateLimited wq
              \<lparr>el_Key = el_Key item, el_Timestamp = now, el_IsSkippable = False\<rparr> (tq_queue t)\<rparr>
          | None \<Rightarrow> t\<lparr>tq_queue := wq_Forget wq item (tq_queue t), tq_lastSync := ts\<rparr>)
      in t1\<lparr>tq_queue := wq_Done wq item (tq_queue t1)\<rparr>)"

text \<open>
  The worker without interference: each round has its two readings of the clock; \<open>None\<close> when
  it blocks on an empty queue, or the readings end before the queue is shut down.
\<close>

fun worker ::
  "'q workqueue \<Rightarrow> (element \<Rightarrow> 'w \<Rightarrow> go_error option \<times> 'w) \<Rightarrow> (int \<times> int) list
     \<Rightarrow> 'q task_queue \<Rightarrow> 'w \<Rightarrow> ('q task_queue \<times> 'w) res option" where
  "worker wq sync [] t w = None"
| "worker wq sync ((ts, now) # readings) t w =
     (case worker_get wq ts t of
        None \<Rightarrow> None
      | Some (Inl p) \<Rightarrow> Some (Inl p)
      | Some (Inr (t1, Exited)) \<Rightarrow> Some (Inr (t1, w))
      | Some (Inr (t1, Polling)) \<Rightarrow> worker wq sync readings t1 w
      | Some (Inr (t1, Syncing item start)) \<Rightarrow>
          (case sync item w of (err, w1) \<Rightarrow>
             worker wq sync readings (worker_settle wq item start now err t1) w1))"

text \<open>
  \<open>Run\<close>: \<open>wait.Until\<close> calls the worker again and again until \<open>stopCh\<close> is closed. It looks at the
  channel between two calls only, so each round has the state of \<open>stopCh\<close> before the call and the
  clock readings of the call.
\<close>

primrec queue_Run ::
  "'q workqueue \<Rightarrow> (element \<Rightarrow> 'w \<Rightarrow> go_error option \<times> 'w) \<Rightarrow> (bool \<times> (int \<times> int) list) list
     \<Rightarrow> 'q task_queue \<Rightarrow> 'w \<Rightarrow> ('q task_queue \<times> 'w) res option" where
  "queue_Run wq sync [] t w = None"
| "queue_Run wq sync (r # rounds) t w =
     (if fst r then Some (Inr (t, w))
      else (case worker wq sync (snd r) t w of
          None \<Rightarrow> None
        | Some (Inl p) \<Rightarrow> Some (Inl p)
        | Some (Inr (t1, w1)) \<Rightarrow> queue_Run wq sync rounds t1 w1))"

text \<open>\<open>Shutdown\<close> then waits until \<open>workerDone\<close> is closed.\<close>

definition queue_Shutdown :: "'q workqueue \<Rightarrow> 'q task_queue \<Rightarrow> 'q task_queue" where
  "queue_Shutdown wq t = t\<lparr>tq_queue := wq_ShutDown wq (tq_queue t)\<rparr>"

section \<open>Documented behaviour of the work queue\<close>

definition workqueue_laws :: "'q workqueue \<Rightarrow> ('q \<Rightarrow> element set) \<Rightarrow> bool" where
  "workqueue_laws wq items \<longleftrightarrow>
     (\<forall>e q. items (wq_Add wq e q) \<subseteq> insert e (items q)) \<and>
     (\<forall>e q. items (wq_AddRateLimited wq e q) \<subseteq> insert e (items q)) \<and>
     (\<forall>e q. items (wq_Forget wq e q) \<subseteq> items q) \<and>
     (\<forall>e q. items (wq_Done wq e q) \<subseteq> items q) \<and>
     (\<forall>q. items (wq_ShutDown wq q) \<subseteq> items q) \<and>
     (\<forall>q e quit q'. wq_Get wq q = Some (e, quit, q') \<longrightarrow>
        (\<not> quit \<longrightarrow> e \<in> items q) \<and> items q' \<subseteq> items q)"

text \<open>An instance: a list with a flag.\<close>

definition example_workqueue :: "(element list \<times> bool) workqueue" where
  "example_workqueue = \<lparr>
     wq_Add = (\<lambda>e (es, d). if d \<or> e \<in> set es then (es, d) else (es @ [e], d)),
     wq_AddRateLimited = (\<lambda>e (es, d). if d \<or> e \<in> set es then (es, d) else (es @ [e], d)),
     wq_Get = (\<lambda>(es, d). case es of
          [] \<Rightarrow> if d then Some (\<lparr>el_Key = '''', el_Timestamp = 0, el_IsSkippable = False\<rparr>, True, [], d) else None
        | e # es' \<Rightarrow> Some (e, False, es', d)),
     wq_Forget = (\<lambda>e q. q), wq_Done = (\<lambda>e q. q), wq_ShutDown = (\<lambda>(es, d). (es, True)), wq_ShuttingDown = snd \<rparr>"

lemma example_workqueue_laws: "workqueue_laws example_workqueue (\<lambda>q. set (fst q))"
  by (auto simp: workqueue_laws_def example_workqueue_def split: list.splits if_splits)

lemma workqueue_lawsD:
  assumes "workqueue_laws wq items"
  shows law_Add: "items (wq_Add wq e q) \<subseteq> insert e (items q)"
    and law_AddRateLimited: "items (wq_AddRateLimited wq e q) \<subseteq> insert e (items q)"
    and law_Forget: "items (wq_Forget wq e q) \<subseteq> items q"
    and law_Done: "items (wq_Done wq e q) \<subseteq> items q"
    and law_ShutDown: "items (wq_ShutDown wq q) \<subseteq> items q"
    and law_Get_item: "wq_Get wq q = Some (e, False, q') \<Longrightarrow> e \<in> items q"
    and law_Get_items: "wq_Get wq q = Some (e, quit, q') \<Longrightarrow> items q' \<subseteq> items q"
  using assms unfolding workqueue_laws_def by blast+

section \<open>The queue over time\<close>

text \<open>
  The queue with its worker's phase, the clock, the times at which elements were enqueued
  (or enqueued again after a failure), and the starting times of the successful syncs.
\<close>

record 'q queue_system =
  qs_queue :: "'q task_queue"
  qs_phase :: worker_phase
  qs_clock :: int
  qs_enqueued :: "(element \<times> int) set"
  qs_completed :: "int set"

definition initial_system :: "'q \<Rightarrow> int \<Rightarrow> 'q queue_system" where
  "initial_system q c = \<lparr>qs_queue = NewCustomTaskQueue q, qs_phase = Polling, qs_clock = c,
     qs_enqueued = {}, qs_completed = {}\<rparr>"

inductive queue_step ::
  "'q workqueue \<Rightarrow> ('o \<Rightarrow> string or_error) \<Rightarrow> 'q queue_system \<Rightarrow> 'q queue_system \<Rightarrow> bool"
  for wq :: "'q workqueue" and fn :: "'o \<Rightarrow> string or_error" where
  enqueue: "qs_clock s \<le> now \<Longrightarrow> fn obj = Inr key \<Longrightarrow> \<not> IsShuttingDown wq (qs_queue s) \<Longrightarrow>
     queue_step wq fn s (s\<lparr>qs_queue := enqueue wq fn now obj skippable (qs_queue s), qs_clock := now,
       qs_enqueued := insert (\<lparr>el_Key = key, el_Timestamp = if skippable then now else now + day,
          el_IsSkippable = False\<rparr>, now) (qs_enqueued s)\<rparr>)"
| rejected: "qs_clock s \<le> now \<Longrightarrow> IsShuttingDown wq (qs_queue s) \<or> (\<exists>err. fn obj = Inl err) \<Longrightarrow>
     queue_step wq fn s (s\<lparr>qs_queue := enqueue wq fn now obj skippable (qs_queue s), qs_clock := now\<rparr>)"
| get: "qs_phase s = Polling \<Longrightarrow> qs_clock s \<le> ts \<Longrightarrow> worker_get wq ts (qs_queue s) = Some (Inr (t, ph)) \<Longrightarrow>
     queue_step wq fn s (s\<lparr>qs_queue := t, qs_phase := ph, qs_clock := ts\<rparr>)"
| succeed: "qs_phase s = Syncing item ts \<Longrightarrow>
     queue_step wq fn s (s\<lparr>qs_queue := worker_settle wq item ts now None (qs_queue s), qs_phase := Polling,
       qs_completed := insert ts (qs_completed s)\<rparr>)"
| fail: "qs_phase s = Syncing item ts \<Longrightarrow> qs_clock s \<le> now \<Longrightarrow>
     queue_step wq fn s (s\<lparr>qs_queue := worker_settle wq item ts now (Some err) (qs_queue s), qs_phase := Polling,
       qs_clock := now,
       qs_enqueued := insert (\<lparr>el_Key = el_Key item, el_Timestamp = now, el_IsSkippable = False\<rparr>, now)
         (qs_enqueued s)\<rparr>)"
| restart: "qs_phase s = Exited \<Longrightarrow> queue_step wq fn s (s\<lparr>qs_phase := Polling\<rparr>)"
| shutdown: "queue_step wq fn s (s\<lparr>qs_queue := queue_Shutdown wq (qs_queue s)\<rparr>)"


text \<open>
  The invariant: what waits was enqueued, at a time not later than its timestamp; the last
  sync is a completed one or none was completed; nothing lies in the future.
\<close>

definition queue_inv :: "('q \<Rightarrow> element set) \<Rightarrow> 'q queue_system \<Rightarrow> bool" where
  "queue_inv items s \<longleftrightarrow>
     items (tq_queue (qs_queue s)) \<subseteq> fst ` qs_enqueued s \<and>
     (\<forall>(e, t) \<in> qs_enqueued s. t \<le> qs_clock s \<and> 0 < t \<and> t \<le> el_Timestamp e) \<and>
     (tq_lastSync (qs_queue s) = 0 \<or> tq_lastSync (qs_queue s) \<in> qs_completed s) \<and>
     0 < qs_clock s"

lemma worker_get_Some:
  assumes "worker_get wq ts t = Some (Inr (t', ph))"
  obtains (exit) item q where "wq_Get wq (tq_queue t) = Some (item, True, q)" "ph = Exited"
      "t' = t\<lparr>tq_queue := q, tq_workerDone := True\<rparr>"
  | (skip) item q where "wq_Get wq (tq_queue t) = Some (item, False, q)" "ph = Polling"
      "tq_lastSync t > el_Timestamp item"
      "t' = t\<lparr>tq_queue := wq_Done wq item (wq_Forget wq item q)\<rparr>"
  | (sync) item q where "wq_Get wq (tq_queue t) = Some (item, False, q)" "ph = Syncing item ts"
      "tq_lastSync t \<le> el_Timestamp item" "t' = t\<lparr>tq_queue := q\<rparr>"
  using assms
  by (auto simp: worker_get_def worker_item_def isClosed_def close_channel_def split: option.splits if_splits prod.splits)

lemma queue_inv_initial: "items q = {} \<Longrightarrow> 0 < c \<Longrightarrow> queue_inv items (initial_system q c)"
  by (simp add: queue_inv_def initial_system_def NewCustomTaskQueue_def)

lemma worker_settle_queue [simp]:
  "tq_lastSync (worker_settle wq item ts now err t) = (if err = None then ts else tq_lastSync t)"
  "tq_queue (worker_settle wq item ts now None t) = wq_Done wq item (wq_Forget wq item (tq_queue t))"
  "tq_queue (worker_settle wq item ts now (Some e) t) = wq_Done wq item (wq_AddRateLimited wq
     \<lparr>el_Key = el_Key item, el_Timestamp = now, el_IsSkippable = False\<rparr> (tq_queue t))"
  by (auto simp: worker_settle_def Let_def split: option.splits)

lemma enqueue_queue:
  "tq_lastSync (enqueue wq fn now obj skippable t) = tq_lastSync t"
  "\<not> IsShuttingDown wq t \<Longrightarrow> fn obj = Inr key \<Longrightarrow> tq_queue (enqueue wq fn now obj skippable t) =
     wq_Add wq \<lparr>el_Key = key, el_Timestamp = if skippable then now else now + day, el_IsSkippable = False\<rparr> (tq_queue t)"
  "IsShuttingDown wq t \<or> (\<exists>err. fn obj = Inl err) \<Longrightarrow> enqueue wq fn now obj skippable t = t"
  by (auto simp: enqueue_def Let_def split: sum.splits)

lemma day_pos: "0 < day"
  by (simp add: day_def)

lemma queue_inv_insert:
  assumes "queue_inv items s"
    and "items (tq_queue (qs_queue s')) \<subseteq> insert e (items (tq_queue (qs_queue s)))"
    and "tq_lastSync (qs_queue s') = tq_lastSync (qs_queue s)" and "qs_completed s' = qs_completed s"
    and "qs_enqueued s' = insert (e, now) (qs_enqueued s)" and "qs_clock s' = now"
    and "qs_clock s \<le> now" and "now \<le> el_Timestamp e"
  shows "queue_inv items s'"
proof -
  from assms(1) have inv: "items (tq_queue (qs_queue s)) \<subseteq> fst ` qs_enqueued s"
    "\<And>x t. (x, t) \<in> qs_enqueued s \<Longrightarrow> t \<le> qs_clock s \<and> 0 < t \<and> t \<le> el_Timestamp x"
    "tq_lastSync (qs_queue s) = 0 \<or> tq_lastSync (qs_queue s) \<in> qs_completed s" "0 < qs_clock s"
    unfolding queue_inv_def by blast+
  have "items (tq_queue (qs_queue s')) \<subseteq> fst ` qs_enqueued s'"
    using assms(2,5) inv(1) by auto
  moreover have "t \<le> now \<and> 0 < t \<and> t \<le> el_Timestamp x" if "(x, t) \<in> insert (e, now) (qs_enqueued s)" for x t
  proof (cases "(x, t) = (e, now)")
    case True
    with inv(4) assms(7,8) show ?thesis by simp
  next
    case False
    with that inv(2)[of x t] assms(7) show ?thesis by auto
  qed
  moreover have "0 < now" using inv(4) assms(7) by simp
  ultimately show ?thesis using inv(3) assms(3-6) unfolding queue_inv_def by auto
qed

lemma worker_get_items:
  assumes laws: "workqueue_laws wq items" and "worker_get wq ts t = Some (Inr (t', ph))"
  shows "items (tq_queue t') \<subseteq> items (tq_queue t) \<and> tq_lastSync t' = tq_lastSync t"
  using assms(2)
proof (cases rule: worker_get_Some)
  case (skip item q)
  with law_Get_items[OF laws skip(1)] law_Done[OF laws] law_Forget[OF laws] show ?thesis by (simp) (meson subset_trans)
next
  case (exit item q)
  with law_Get_items[OF laws exit(1)] show ?thesis by simp
next
  case (sync item q)
  with law_Get_items[OF laws sync(1)] show ?thesis by simp
qed

lemma queue_step_inv:
  assumes laws: "workqueue_laws wq items" and "queue_step wq fn s s'" and "queue_inv items s"
  shows "queue_inv items s'"
  using assms(2)
proof cases
  case (enqueue now obj key skippable)
  let ?e = "\<lparr>el_Key = key, el_Timestamp = if skippable then now else now + day, el_IsSkippable = False\<rparr>"
  have q: "tq_queue (qs_queue s') = wq_Add wq ?e (tq_queue (qs_queue s))"
    "tq_lastSync (qs_queue s') = tq_lastSync (qs_queue s)" "qs_clock s' = now" "qs_completed s' = qs_completed s"
    "qs_enqueued s' = insert (?e, now) (qs_enqueued s)"
    using enqueue by (simp_all add: enqueue_queue)
  have "items (wq_Add wq ?e (tq_queue (qs_queue s))) \<subseteq> insert ?e (items (tq_queue (qs_queue s)))"
    by (rule law_Add[OF laws])
  moreover have "now \<le> el_Timestamp ?e" using day_pos by simp
  ultimately show ?thesis
    using queue_inv_insert[OF assms(3), of s' ?e now] enqueue(2) by (simp only: q)
next
  case (rejected now obj skippable)
  with assms(3) show ?thesis by (fastforce simp: queue_inv_def enqueue_queue)
next
  case (get ts t ph)
  have base: "queue_inv items (s\<lparr>qs_queue := t, qs_phase := ph, qs_clock := ts\<rparr>)"
    if "items (tq_queue t) \<subseteq> items (tq_queue (qs_queue s))" "tq_lastSync t = tq_lastSync (qs_queue s)"
    using that assms(3) get(3) by (fastforce simp: queue_inv_def)
  have "items (tq_queue t) \<subseteq> items (tq_queue (qs_queue s)) \<and> tq_lastSync t = tq_lastSync (qs_queue s)"
    by (rule worker_get_items[OF laws get(4)])
  with base get(1) show ?thesis by simp
next
  case (succeed item ts now)
  have "items (wq_Done wq item (wq_Forget wq item (tq_queue (qs_queue s)))) \<subseteq> items (tq_queue (qs_queue s))"
    using law_Done[OF laws] law_Forget[OF laws] by (meson subset_trans)
  with succeed assms(3) show ?thesis by (auto simp: queue_inv_def)
next
  case (fail item ts now err)
  have "items (wq_Done wq item (wq_AddRateLimited wq e (tq_queue (qs_queue s)))) \<subseteq> insert e (items (tq_queue (qs_queue s)))" for e
    using law_Done[OF laws] law_AddRateLimited[OF laws] by (meson subset_trans)
  with fail queue_inv_insert[OF assms(3), of s' _ now] show ?thesis by simp
next
  case restart
  with assms(3) show ?thesis by (simp add: queue_inv_def)
next
  case shutdown
  with assms(3) law_ShutDown[OF laws] show ?thesis by (auto simp: queue_inv_def queue_Shutdown_def)
qed

interpretation queue_run: invariant_steps "queue_step wq fn" "\<lambda>s. workqueue_laws wq items \<and> queue_inv items s"
  for wq fn items
  by unfold_locales (auto intro: queue_step_inv)

lemma queue_reach_inv:
  assumes "workqueue_laws wq items" and "(queue_step wq fn)\<^sup>*\<^sup>* s s'" and "queue_inv items s"
  shows "queue_inv items s'"
  using queue_run.reach_inv[OF assms(2)] assms(1,3) by blast


section \<open>Properties\<close>

text \<open>C9: no event is lost. However the enqueuing goroutines and the worker interleave, when the
  worker takes an element that waits in the queue, it was enqueued at some time \<open>t\<close>, and a
  synchronisation that starts at \<open>t\<close> or later covers it: the worker starts one now, or it
  skips the element because one that started after \<open>t\<close> has already succeeded.\<close>

theorem no_event_lost:
  assumes "workqueue_laws wq items" and "items q0 = {}" and "0 < c"
    and "(queue_step wq fn)\<^sup>*\<^sup>* (initial_system q0 c) s" and "qs_clock s \<le> ts"
    and "wq_Get wq (tq_queue (qs_queue s)) = Some (item, False, q)"
  shows "\<exists>t. (item, t) \<in> qs_enqueued s \<and>
     (\<exists>t'. worker_get wq ts (qs_queue s) = Some (Inr (t', Syncing item ts)) \<and> t \<le> ts \<or>
           worker_get wq ts (qs_queue s) = Some (Inr (t', Polling)) \<and> (\<exists>start \<in> qs_completed s. t < start))"
proof -
  have inv: "queue_inv items s"
    using queue_reach_inv[OF assms(1,4)] queue_inv_initial[of items q0 c] assms(2,3) by blast
  from law_Get_item[OF assms(1,6)] inv obtain t where t: "(item, t) \<in> qs_enqueued s"
    by (auto simp: queue_inv_def)
  with inv have b: "t \<le> qs_clock s" "0 < t" "t \<le> el_Timestamp item" by (auto simp: queue_inv_def)
  show ?thesis
  proof (cases "tq_lastSync (qs_queue s) > el_Timestamp item")
    case True
    with b have "tq_lastSync (qs_queue s) \<noteq> 0" by simp
    with inv have "tq_lastSync (qs_queue s) \<in> qs_completed s" by (simp add: queue_inv_def)
    with True b have "\<exists>start \<in> qs_completed s. t < start" by (intro bexI[of _ "tq_lastSync (qs_queue s)"]) simp_all
    moreover have "\<exists>t'. worker_get wq ts (qs_queue s) = Some (Inr (t', Polling))"
      using True assms(6) by (simp add: worker_get_def worker_item_def)
    ultimately show ?thesis using t by blast
  next
    case False
    then have "\<exists>t'. worker_get wq ts (qs_queue s) = Some (Inr (t', Syncing item ts))"
      using assms(6) by (simp add: worker_get_def worker_item_def)
    with t b(1) assms(5) show ?thesis by force
  qed
qed

definition example_queued :: "(element list \<times> bool) queue_system" where
  "example_queued = (initial_system ([], False) 5)\<lparr>
     qs_queue := enqueue example_workqueue Inr 7 ''default/web'' True (NewCustomTaskQueue ([], False)),
     qs_clock := 7,
     qs_enqueued := {(\<lparr>el_Key = ''default/web'', el_Timestamp = 7, el_IsSkippable = False\<rparr>, 7)}\<rparr>"

lemma no_event_lost_witness:
  "\<exists>t'. worker_get example_workqueue 9 (qs_queue example_queued) =
     Some (Inr (t', Syncing \<lparr>el_Key = ''default/web'', el_Timestamp = 7, el_IsSkippable = False\<rparr> 9))"
proof -
  let ?e = "\<lparr>el_Key = ''default/web'', el_Timestamp = 7, el_IsSkippable = False\<rparr>"
  have "queue_step example_workqueue Inr (initial_system ([], False) 5) example_queued"
    using queue_step.enqueue[of "initial_system ([], False) 5" 7 Inr "''default/web''" "''default/web''"
        example_workqueue True]
    by (simp add: example_queued_def initial_system_def IsShuttingDown_def NewCustomTaskQueue_def example_workqueue_def)
  then have r: "(queue_step example_workqueue Inr)\<^sup>*\<^sup>* (initial_system ([], False) 5) example_queued" by blast
  have g: "wq_Get example_workqueue (tq_queue (qs_queue example_queued)) = Some (?e, False, ([], False))"
    by code_simp
  from no_event_lost[OF example_workqueue_laws _ _ r _ g, of 9]
  show ?thesis by (auto simp: example_queued_def initial_system_def)
qed

text \<open>A task that may not be skipped is not skipped for a day. The worker skips an element
  enqueued with \<open>EnqueueTask\<close> only if a synchronisation that started more than twenty-four
  hours after it was enqueued has succeeded.\<close>

lemma task_not_skipped_within_day:
  assumes "workqueue_laws wq items" and "items q0 = {}" and "0 < c"
    and "(queue_step wq fn)\<^sup>*\<^sup>* (initial_system q0 c) s"
    and "wq_Get wq (tq_queue (qs_queue s)) = Some (\<lparr>el_Key = k, el_Timestamp = t + day, el_IsSkippable = False\<rparr>, False, q)"
    and "0 < t" and "worker_get wq ts (qs_queue s) = Some (Inr (t', Polling))"
  shows "\<exists>start \<in> qs_completed s. t + day < start"
proof -
  have inv: "queue_inv items s"
    using queue_reach_inv[OF assms(1,4)] queue_inv_initial[of items q0 c] assms(2,3) by blast
  from assms(5,7) have "tq_lastSync (qs_queue s) > t + day"
    by (simp add: worker_get_def worker_item_def split: if_splits)
  with inv assms(6) day_pos show ?thesis by (auto simp: queue_inv_def)
qed


text \<open>A run in which a task waits for more than a day behind another element.\<close>

abbreviation example_task :: element where
  "example_task \<equiv> \<lparr>el_Key = ''default/web'', el_Timestamp = 7 + day, el_IsSkippable = False\<rparr>"

abbreviation example_first :: element where
  "example_first \<equiv> \<lparr>el_Key = ''default/api'', el_Timestamp = 6, el_IsSkippable = False\<rparr>"

definition example_late :: "element list \<Rightarrow> int \<Rightarrow> worker_phase \<Rightarrow> int \<Rightarrow> (element \<times> int) set \<Rightarrow> int set
    \<Rightarrow> (element list \<times> bool) queue_system" where
  "example_late es lastSync ph clock enq compl =
     \<lparr>qs_queue = \<lparr>tq_queue = (es, False), tq_workerDone = False, tq_lastSync = lastSync\<rparr>,
      qs_phase = ph, qs_clock = clock, qs_enqueued = enq, qs_completed = compl\<rparr>"

lemma example_late_run:
  "(queue_step example_workqueue Inr)\<^sup>*\<^sup>* (initial_system ([], False) 5)
     (example_late [example_task] (10 + day) Polling (10 + day)
        {(example_task, 7), (example_first, 6)} {10 + day})"
proof -
  let ?st = "queue_step example_workqueue Inr"
  let ?s1 = "example_late [example_first] 0 Polling 6 {(example_first, 6)} {}"
  let ?s2 = "example_late [example_first, example_task] 0 Polling 7 {(example_task, 7), (example_first, 6)} {}"
  let ?s3 = "example_late [example_task] 0 (Syncing example_first (10 + day)) (10 + day)
     {(example_task, 7), (example_first, 6)} {}"
  let ?s4 = "example_late [example_task] (10 + day) Polling (10 + day) {(example_task, 7), (example_first, 6)} {10 + day}"
  note defs = example_late_def initial_system_def NewCustomTaskQueue_def IsShuttingDown_def enqueue_def
    example_workqueue_def worker_get_def worker_item_def worker_settle_def
  have "?st (initial_system ([], False) 5) ?s1"
    using queue_step.enqueue[of "initial_system ([], False) 5" 6 Inr "''default/api''" "''default/api''" example_workqueue True]
    by (simp add: defs)
  moreover have "?st ?s1 ?s2"
    using queue_step.enqueue[of ?s1 7 Inr "''default/web''" "''default/web''" example_workqueue False]
    by (simp add: defs)
  moreover have "?st ?s2 ?s3"
    using queue_step.get[of ?s2 "10 + day" example_workqueue "qs_queue ?s3" "Syncing example_first (10 + day)" Inr] day_pos
    by (simp add: defs)
  moreover have "?st ?s3 ?s4"
    using queue_step.succeed[of ?s3 example_first "10 + day" example_workqueue Inr 0]
    by (simp add: defs)
  ultimately show ?thesis by (meson converse_rtranclp_into_rtranclp rtranclp.rtrancl_refl)
qed

text \<open>
  What the work queue promises for a shutdown: it never blocks a reader again, takes no new
  element, and the number of elements still to be handed out goes down with every \<open>Get\<close>.
\<close>

definition drain_laws :: "'q workqueue \<Rightarrow> ('q \<Rightarrow> nat) \<Rightarrow> bool" where
  "drain_laws wq pending \<longleftrightarrow>
     (\<forall>q. wq_ShuttingDown wq q \<longrightarrow>
        (\<exists>e quit q'. wq_Get wq q = Some (e, quit, q') \<and>
           (\<not> quit \<longrightarrow> wq_ShuttingDown wq q' \<and> pending q' < pending q)) \<and>
        (\<forall>e. wq_ShuttingDown wq (wq_Forget wq e q) \<and> pending (wq_Forget wq e q) \<le> pending q) \<and>
        (\<forall>e. wq_ShuttingDown wq (wq_Done wq e q) \<and> pending (wq_Done wq e q) \<le> pending q) \<and>
        (\<forall>e. wq_ShuttingDown wq (wq_AddRateLimited wq e q) \<and> pending (wq_AddRateLimited wq e q) \<le> pending q))"

lemma drain_lawsD:
  assumes "drain_laws wq pending" and "wq_ShuttingDown wq q"
  shows drain_Get: "\<exists>e quit q'. wq_Get wq q = Some (e, quit, q') \<and>
           (\<not> quit \<longrightarrow> wq_ShuttingDown wq q' \<and> pending q' < pending q)"
    and drain_Forget: "wq_ShuttingDown wq (wq_Forget wq e q) \<and> pending (wq_Forget wq e q) \<le> pending q"
    and drain_Done: "wq_ShuttingDown wq (wq_Done wq e q) \<and> pending (wq_Done wq e q) \<le> pending q"
    and drain_Add: "wq_ShuttingDown wq (wq_AddRateLimited wq e q) \<and> pending (wq_AddRateLimited wq e q) \<le> pending q"
  using assms unfolding drain_laws_def by blast+

lemma worker_settle_drains:
  assumes "drain_laws wq pending" and "wq_ShuttingDown wq (tq_queue t)"
  shows "wq_ShuttingDown wq (tq_queue (worker_settle wq item ts now err t)) \<and>
     pending (tq_queue (worker_settle wq item ts now err t)) \<le> pending (tq_queue t)"
proof (cases err)
  case None
  from drain_Forget[OF assms, of item] have f: "wq_ShuttingDown wq (wq_Forget wq item (tq_queue t))"
    "pending (wq_Forget wq item (tq_queue t)) \<le> pending (tq_queue t)" by blast+
  from drain_Done[OF assms(1) f(1), of item] f(2) None show ?thesis by auto
next
  case (Some e)
  let ?e = "\<lparr>el_Key = el_Key item, el_Timestamp = now, el_IsSkippable = False\<rparr>"
  from drain_Add[OF assms, of ?e] have f: "wq_ShuttingDown wq (wq_AddRateLimited wq ?e (tq_queue t))"
    "pending (wq_AddRateLimited wq ?e (tq_queue t)) \<le> pending (tq_queue t)" by blast+
  from drain_Done[OF assms(1) f(1), of item] f(2) Some show ?thesis by auto
qed

text \<open>C25: a shutdown ends. Once the queue is shutting down, the worker drains what is left, whether
  its synchronisations succeed or fail, and returns after at most as many rounds as
  elements were pending; it closes \<open>workerDone\<close>, on which \<open>Shutdown\<close> waits, and never closes
  it twice.\<close>

theorem shutdown_worker_exits:
  assumes "drain_laws wq pending" and "IsShuttingDown wq t"
    and "pending (tq_queue t) < length readings"
  shows "\<exists>t' w'. worker wq sync readings t w = Some (Inr (t', w')) \<and> tq_workerDone t'"
  using assms(2,3)
proof (induction readings arbitrary: t w)
  case Nil
  then show ?case by simp
next
  case (Cons r readings)
  obtain ts now where r: "r = (ts, now)" by (cases r)
  from Cons.prems(1) have sd: "wq_ShuttingDown wq (tq_queue t)" by (simp add: IsShuttingDown_def)
  from drain_Get[OF assms(1) sd] obtain e quit q where
    get: "wq_Get wq (tq_queue t) = Some (e, quit, q)"
    "\<not> quit \<longrightarrow> wq_ShuttingDown wq q \<and> pending q < pending (tq_queue t)" by blast
  let ?t1 = "t\<lparr>tq_queue := q\<rparr>"
  show ?case
  proof (cases quit)
    case True
    with get(1) r show ?thesis
      by (cases "tq_workerDone t") (simp_all add: worker_get_def worker_item_def isClosed_def close_channel_def)
  next
    case False
    with get(2) have q: "wq_ShuttingDown wq (tq_queue ?t1)" "pending (tq_queue ?t1) < pending (tq_queue t)" by simp_all
    show ?thesis
    proof (cases "tq_lastSync t > el_Timestamp e")
      case True
      from drain_Forget[OF assms(1) q(1), of e] have f: "wq_ShuttingDown wq (wq_Forget wq e q)"
        "pending (wq_Forget wq e q) \<le> pending q" by simp_all
      from drain_Done[OF assms(1) f(1), of e] f(2) q(2) Cons.prems(2) True False get(1) r
        Cons.IH[of "t\<lparr>tq_queue := wq_Done wq e (wq_Forget wq e q)\<rparr>" w]
      show ?thesis by (simp add: worker_get_def worker_item_def IsShuttingDown_def)
    next
      case run: False
      obtain err w1 where s: "sync e w = (err, w1)" by (cases "sync e w")
      let ?t2 = "worker_settle wq e ts now err ?t1"
      from worker_settle_drains[OF assms(1) q(1), of e ts now err] q(2) Cons.prems(2)
      have "\<exists>t' w'. worker wq sync readings ?t2 w1 = Some (Inr (t', w')) \<and> tq_workerDone t'"
        by (intro Cons.IH) (auto simp: IsShuttingDown_def)
      with run False get(1) r s show ?thesis by (simp add: worker_get_def worker_item_def)
    qed
  qed
qed

lemma example_drain_laws: "drain_laws example_workqueue (\<lambda>q. length (fst q))"
  by (auto simp: drain_laws_def example_workqueue_def split: list.splits)

lemma shutdown_worker_exits_witness:
  "\<exists>t' w'. worker example_workqueue (\<lambda>_ w. (Some ''boom'', Suc w)) [(9, 9), (10, 10)]
      (queue_Shutdown example_workqueue (qs_queue example_queued)) 0 = Some (Inr (t', w')) \<and> tq_workerDone t'"
proof -
  have "IsShuttingDown example_workqueue (queue_Shutdown example_workqueue (qs_queue example_queued))" by code_simp
  moreover have "length (fst (tq_queue (queue_Shutdown example_workqueue (qs_queue example_queued)))) = 1" by code_simp
  ultimately show ?thesis
    using shutdown_worker_exits[OF example_drain_laws,
        of "queue_Shutdown example_workqueue (qs_queue example_queued)" "[(9, 9), (10, 10)]"] by simp
qed

end
