(* ===== verification/StatusSync.thy ===== *)
theory StatusSync
  imports Upstreams RedisManager TaskQueue
begin

text \<open>
  The package \<open>internal/ingress/status\<close>: the leader publishes the addresses of the controller
  in the status of every Ingress, and cleans the session table periodically.

  The API server is a parameter: the record \<open>status_client\<close> holds the reads it answers and the
  update of a status, which acts on a world \<open>'a\<close>. The work pool runs the queued updates in an
  order of its own, \<open>sched\<close>. \<open>sort.SliceStable\<close> on the cached slices sorts them in place; as only
  the comparison that follows looks at them, the model sorts copies.
\<close>

section \<open>The order of addresses\<close>

text \<open>\<open>strings.Compare\<close>, and the comparison of \<open>lessLoadBalancerIngress\<close>.\<close>

definition strings_Compare :: "string \<Rightarrow> string \<Rightarrow> int" where
  "strings_Compare a b = (if a = b then 0 else if a < b then - 1 else 1)"

definition lessLoadBalancerIngress :: "load_balancer_ingress \<Rightarrow> load_balancer_ingress \<Rightarrow> bool" where
  "lessLoadBalancerIngress a b =
     (let c = strings_Compare (lb_Hostname a) (lb_Hostname b) in
      if c = - 1 then True else if c = 1 then False else lb_IP a < lb_IP b)"

lemma lessLoadBalancerIngress_iff:
  "lessLoadBalancerIngress a b \<longleftrightarrow>
     lb_Hostname a < lb_Hostname b \<or> lb_Hostname a = lb_Hostname b \<and> lb_IP a < lb_IP b"
  by (auto simp: lessLoadBalancerIngress_def strings_Compare_def)

instantiation load_balancer_ingress :: linorder
begin

definition less_load_balancer_ingress where
  "(a :: load_balancer_ingress) < b \<longleftrightarrow> lessLoadBalancerIngress a b"

definition less_eq_load_balancer_ingress where
  "(a :: load_balancer_ingress) \<le> b \<longleftrightarrow> a = b \<or> lessLoadBalancerIngress a b"

instance
proof
  fix x y z :: load_balancer_ingress
  show "x < y \<longleftrightarrow> x \<le> y \<and> \<not> y \<le> x"
    by (auto simp: less_load_balancer_ingress_def less_eq_load_balancer_ingress_def lessLoadBalancerIngress_iff)
  show "x \<le> x" by (simp add: less_eq_load_balancer_ingress_def)
  show "x \<le> y \<Longrightarrow> y \<le> z \<Longrightarrow> x \<le> z"
    by (auto simp: less_eq_load_balancer_ingress_def lessLoadBalancerIngress_iff)
  show "x \<le> y \<Longrightarrow> y \<le> x \<Longrightarrow> x = y"
    by (auto simp: less_eq_load_balancer_ingress_def lessLoadBalancerIngress_iff)
  show "x \<le> y \<or> y \<le> x"
    by (cases x; cases y) (auto simp: less_eq_load_balancer_ingress_def lessLoadBalancerIngress_iff)
qed

end

section \<open>Model\<close>

record 'a status_client =
  sc_getService :: "string \<Rightarrow> string \<Rightarrow> service or_error"
  sc_listPods :: "string \<Rightarrow> (string, string) go_map \<Rightarrow> pod list or_error"
  sc_getNode :: "string \<Rightarrow> node or_error"
  sc_getIngress :: "string \<Rightarrow> string \<Rightarrow> 'a \<Rightarrow> k8s_ingress or_error"
  sc_UpdateStatus :: "k8s_ingress \<Rightarrow> 'a \<Rightarrow> go_error option \<times> 'a"

record 'a statusSync =
  ss_Client :: "'a status_client"
  ss_UpdateStatusOnShutdown :: bool
  ss_PublishService :: string
  ss_pod :: pod_info

text \<open>The addresses a service is reached at.\<close>

definition service_addresses :: "service \<Rightarrow> string list" where
  "service_addresses svc =
     (if svc_type svc = ServiceTypeExternalName then [svc_externalName svc]
      else map (\<lambda>ip. if lb_IP ip = '''' then lb_Hostname ip else lb_IP ip) (svc_loadBalancer svc)
           @ svc_externalIPs svc)"

primrec node_addresses :: "(string \<Rightarrow> node or_error) \<Rightarrow> pod list \<Rightarrow> string list \<Rightarrow> string list" where
  "node_addresses getNode [] addrs = addrs"
| "node_addresses getNode (p # pods) addrs =
     (if pod_phase p \<noteq> PodRunning then node_addresses getNode pods addrs
      else (let name = GetNodeIPOrName getNode (pod_nodeName p) False in
        if name \<in> set addrs then node_addresses getNode pods addrs
        else node_addresses getNode pods (addrs @ [name])))"

text \<open>The error of \<open>ParseNameNS\<close> is dropped; it comes with two empty strings.\<close>

definition runningAddresses :: "'a statusSync \<Rightarrow> string list or_error" where
  "runningAddresses s =
     (if ss_PublishService s \<noteq> '''' then
        (let (ns, name) = (case ParseNameNS (ss_PublishService s) of Inl _ \<Rightarrow> ('''', '''') | Inr x \<Rightarrow> x) in
         case sc_getService (ss_Client s) ns name of
           Inl err \<Rightarrow> Inl err
         | Inr svc \<Rightarrow> Inr (service_addresses svc))
      else
        (case sc_listPods (ss_Client s) (pi_namespace (ss_pod s)) (pi_labels (ss_pod s)) of
           Inl err \<Rightarrow> Inl err
         | Inr pods \<Rightarrow> Inr (node_addresses (sc_getNode (ss_Client s)) pods [])))"

definition isRunningMultiplePods :: "'a statusSync \<Rightarrow> bool" where
  "isRunningMultiplePods s =
     (case sc_listPods (ss_Client s) (pi_namespace (ss_pod s)) (pi_labels (ss_pod s)) of
        Inl _ \<Rightarrow> False
      | Inr pods \<Rightarrow> length pods > 1)"

definition sliceToStatus :: "string list \<Rightarrow> load_balancer_ingress list" where
  "sliceToStatus endpoints =
     sort_key lb_IP (map (\<lambda>ep. if \<not> ParseIP ep then LoadBalancerIngress ep '''' else LoadBalancerIngress '''' ep)
       endpoints)"

text \<open>\<open>slice_eq_from\<close> is the loop over the indices.\<close>

fun slice_eq_from :: "load_balancer_ingress list \<Rightarrow> load_balancer_ingress list \<Rightarrow> bool" where
  "slice_eq_from (l # lhs) (r # rhs) =
     (if lb_IP l \<noteq> lb_IP r then False
      else if lb_Hostname l \<noteq> lb_Hostname r then False
      else slice_eq_from lhs rhs)"
| "slice_eq_from _ _ = True"

definition ingressSliceEqual :: "load_balancer_ingress list \<Rightarrow> load_balancer_ingress list \<Rightarrow> bool" where
  "ingressSliceEqual lhs rhs = (if length lhs \<noteq> length rhs then False else slice_eq_from lhs rhs)"

definition runUpdate ::
  "'a status_client \<Rightarrow> load_balancer_ingress list \<Rightarrow> ingress \<Rightarrow> 'a \<Rightarrow> go_error option \<times> 'a" where
  "runUpdate c status ing a =
     (case sc_getIngress c (om_namespace (in_meta ing)) (om_name (in_meta ing)) a of
        Inl err \<Rightarrow> (Some (''unexpected error searching Ingress '' @ om_namespace (in_meta ing) @ ''/''
                       @ om_name (in_meta ing) @ '': '' @ err), a)
      | Inr currIng \<Rightarrow> (None, snd (sc_UpdateStatus c (currIng\<lparr>ing_loadBalancer := status\<rparr>) a)))"

text \<open>The Ingresses whose status has to be updated.\<close>

definition outdated :: "load_balancer_ingress list \<Rightarrow> ingress list \<Rightarrow> ingress list" where
  "outdated newIngressPoint ings =
     filter (\<lambda>ing. \<not> ingressSliceEqual (sort (ing_loadBalancer (in_Ingress ing))) newIngressPoint) ings"

definition updateStatus ::
  "(ingress list \<Rightarrow> ingress list) \<Rightarrow> 'a statusSync \<Rightarrow> ingress list \<Rightarrow> load_balancer_ingress list \<Rightarrow> 'a \<Rightarrow> 'a" where
  "updateStatus sched s ings newIngressPoint a =
     (let status = sort newIngressPoint in
      fold (\<lambda>ing a. snd (runUpdate (ss_Client s) status ing a)) (sched (outdated status ings)) a)"

definition status_sync ::
  "(ingress list \<Rightarrow> ingress list) \<Rightarrow> 'a statusSync \<Rightarrow> bool \<Rightarrow> ingress list \<Rightarrow> 'a \<Rightarrow> go_error option \<times> 'a" where
  "status_sync sched s shuttingDown ings a =
     (if shuttingDown then (None, a)
      else (case runningAddresses s of
         Inl err \<Rightarrow> (Some err, a)
       | Inr addrs \<Rightarrow> (None, updateStatus sched s ings (sliceToStatus addrs) a)))"

text \<open>
  The queue is shut down in a goroutine of its own, which then waits for the worker: the result is the
  queue and the world of the API server once both have run. Neither reads what the other changes.
\<close>

definition status_Shutdown ::
  "'q workqueue \<Rightarrow> (ingress list \<Rightarrow> ingress list) \<Rightarrow> 'a statusSync \<Rightarrow> ingress list \<Rightarrow> 'q task_queue \<times> 'a
     \<Rightarrow> 'q task_queue \<times> 'a" where
  "status_Shutdown wq sched s ings ta =
     (let t = queue_Shutdown wq (fst ta); a = snd ta in
      if \<not> ss_UpdateStatusOnShutdown s then (t, a)
      else (case runningAddresses s of
         Inl _ \<Rightarrow> (t, a)
       | Inr addrs \<Rightarrow>
           if length addrs > 1 then (t, a)
           else if isRunningMultiplePods s then (t, a)
           else (t, updateStatus sched s ings [] a)))"

text \<open>
  The loops of \<open>getActiveEndpoints\<close>, over the rules of all Ingresses with their namespaces; the
  result is the slice and the error it returns.
\<close>

primrec active_endpoints ::
  "storer \<Rightarrow> (string \<times> ingress_rule) list \<Rightarrow> string list \<Rightarrow> (string list \<times> go_error option) res" where
  "active_endpoints st [] endpoints = Inr (endpoints, None)"
| "active_endpoints st (nr # rs) endpoints =
     bind_res (rule_backend (snd nr)) (\<lambda>b.
       case st_GetServiceEndpoints st (fst nr @ ''/'' @ ib_serviceName b) of
         Inl err \<Rightarrow> Inr (endpoints, Some err)
       | Inr ep \<Rightarrow> active_endpoints st rs
           (endpoints @ concat (map (\<lambda>subset. map ea_ip (ss_addresses subset)) (eps_subsets ep))))"

definition getActiveEndpoints :: "storer \<Rightarrow> ingress list \<Rightarrow> (string list \<times> go_error option) res" where
  "getActiveEndpoints st ings = active_endpoints st (all_rules ings) []"

text \<open>The function that \<open>Run\<close> polls with, after it has enqueued a sync of the status.\<close>

definition status_poll ::
  "((string \<times> string) list \<Rightarrow> (string \<times> string) list) \<Rightarrow> 'w manager \<Rightarrow> storer \<Rightarrow> ingress list \<Rightarrow> 'w \<Rightarrow> 'w res" where
  "status_poll ord ls st ings w =
     bind_res (getActiveEndpoints st ings) (\<lambda>(endpoints, err).
       case err of Some _ \<Rightarrow> Inr w | None \<Rightarrow> Inr (snd (Clean ord ls endpoints w)))"


section \<open>The API server\<close>

definition name_of :: "k8s_ingress \<Rightarrow> string \<times> string" where
  "name_of i = (om_namespace (ing_meta i), om_name (ing_meta i))"

text \<open>
  \<open>view\<close> maps namespace and name to the Ingress; updating a status changes nothing else of the
  object, and does nothing when it is gone.
\<close>

definition api_laws :: "'a status_client \<Rightarrow> ('a \<Rightarrow> string \<times> string \<rightharpoonup> k8s_ingress) \<Rightarrow> bool" where
  "api_laws c view \<longleftrightarrow>
     (\<forall>ns n a i. view a (ns, n) = Some i \<longrightarrow> name_of i = (ns, n) \<and> sc_getIngress c ns n a = Inr i) \<and>
     (\<forall>ns n a. view a (ns, n) = None \<longrightarrow> (\<exists>err. sc_getIngress c ns n a = Inl err)) \<and>
     (\<forall>i a. view (snd (sc_UpdateStatus c i a)) = (case view a (name_of i) of
        None \<Rightarrow> view a
      | Some j \<Rightarrow> (view a)(name_of i \<mapsto> j\<lparr>ing_loadBalancer := ing_loadBalancer i\<rparr>)))"

lemma api_lawsD:
  assumes "api_laws c view"
  shows law_name: "view a (ns, n) = Some i \<Longrightarrow> name_of i = (ns, n)"
    and law_getIngress: "view a (ns, n) = Some i \<Longrightarrow> sc_getIngress c ns n a = Inr i"
    and law_getIngress_None: "view a (ns, n) = None \<Longrightarrow> \<exists>err. sc_getIngress c ns n a = Inl err"
    and law_UpdateStatus: "view (snd (sc_UpdateStatus c i a)) = (case view a (name_of i) of
        None \<Rightarrow> view a
      | Some j \<Rightarrow> (view a)(name_of i \<mapsto> j\<lparr>ing_loadBalancer := ing_loadBalancer i\<rparr>))"
  using assms unfolding api_laws_def by blast+

lemma name_of_status [simp]: "name_of (i\<lparr>ing_loadBalancer := st\<rparr>) = name_of i"
  by (simp add: name_of_def)

lemma runUpdate_view:
  assumes "api_laws c view"
  shows "view (snd (runUpdate c status ing a)) = (\<lambda>k. if k = name_of (in_Ingress ing)
     then map_option (\<lambda>i. i\<lparr>ing_loadBalancer := status\<rparr>) (view a k) else view a k)"
proof (cases "view a (name_of (in_Ingress ing))")
  case None
  then obtain err where "sc_getIngress c (om_namespace (in_meta ing)) (om_name (in_meta ing)) a = Inl err"
    using law_getIngress_None[OF assms, of a "om_namespace (in_meta ing)" "om_name (in_meta ing)"]
    by (auto simp: name_of_def)
  with None show ?thesis by (auto simp: runUpdate_def)
next
  case (Some i)
  then have g: "sc_getIngress c (om_namespace (in_meta ing)) (om_name (in_meta ing)) a = Inr i"
    using law_getIngress[OF assms] by (simp add: name_of_def)
  have n: "name_of i = name_of (in_Ingress ing)"
    using law_name[OF assms] Some by (simp add: name_of_def)
  with g Some show ?thesis by (auto simp: runUpdate_def law_UpdateStatus[OF assms])
qed

lemma run_updates_view:
  assumes "api_laws c view"
  shows "view (fold (\<lambda>ing a. snd (runUpdate c status ing a)) ings a) =
     (\<lambda>k. if k \<in> (\<lambda>ing. name_of (in_Ingress ing)) ` set ings
          then map_option (\<lambda>i. i\<lparr>ing_loadBalancer := status\<rparr>) (view a k) else view a k)"
proof (induction ings arbitrary: a)
  case Nil
  then show ?case by simp
next
  case (Cons ing ings)
  show ?case
    by (auto simp: Cons.IH runUpdate_view[OF assms] fun_eq_iff option.map_comp comp_def)
qed

lemma ingressSliceEqual_iff: "ingressSliceEqual lhs rhs \<longleftrightarrow> lhs = rhs"
proof -
  have "length lhs = length rhs \<Longrightarrow> slice_eq_from lhs rhs \<longleftrightarrow> lhs = rhs"
    by (induction lhs rhs rule: slice_eq_from.induct) (auto simp: load_balancer_ingress.expand)
  then show ?thesis by (auto simp: ingressSliceEqual_def)
qed

lemma sort_eq_iff: "sort xs = sort ys \<longleftrightarrow> mset xs = mset ys"
  by (metis mset_sort properties_for_sort sorted_sort)

lemma updateStatus_view:
  assumes "api_laws (ss_Client s) view" and "range_order sched"
  shows "view (updateStatus sched s ings newIngressPoint a) = (\<lambda>k.
     if \<exists>ing \<in> set ings. name_of (in_Ingress ing) = k \<and> mset (ing_loadBalancer (in_Ingress ing)) \<noteq> mset newIngressPoint
     then map_option (\<lambda>i. i\<lparr>ing_loadBalancer := sort newIngressPoint\<rparr>) (view a k) else view a k)"
proof -
  have "set (sched (outdated (sort newIngressPoint) ings)) =
      {ing \<in> set ings. mset (ing_loadBalancer (in_Ingress ing)) \<noteq> mset newIngressPoint}"
    by (auto simp: range_order_set[OF assms(2)] outdated_def ingressSliceEqual_iff sort_eq_iff)
  then have "k \<in> (\<lambda>ing. name_of (in_Ingress ing)) ` set (sched (outdated (sort newIngressPoint) ings)) \<longleftrightarrow>
      (\<exists>ing \<in> set ings. name_of (in_Ingress ing) = k \<and> mset (ing_loadBalancer (in_Ingress ing)) \<noteq> mset newIngressPoint)" for k
    by (auto simp: image_iff)
  then show ?thesis
    unfolding updateStatus_def Let_def run_updates_view[OF assms(1)] by simp
qed

section \<open>Properties\<close>

text \<open>C27: the status is published. While the API server answers, and in whatever order the work
  pool runs the updates, exactly those listed Ingresses whose cached addresses differ from the
  new ones get the sorted new addresses as their status; every other object is unchanged, and
  so is everything but the status.\<close>

theorem updateStatus_publishes:
  assumes "api_laws (ss_Client s) view" and "range_order sched"
  shows "view (updateStatus sched s ings newIngressPoint a) = (\<lambda>k.
     if \<exists>ing \<in> set ings. name_of (in_Ingress ing) = k \<and> mset (ing_loadBalancer (in_Ingress ing)) \<noteq> mset newIngressPoint
     then map_option (\<lambda>i. i\<lparr>ing_loadBalancer := sort newIngressPoint\<rparr>) (view a k) else view a k)"
  using assms by (rule updateStatus_view)

text \<open>No needless update. An Ingress is updated exactly when its published addresses are not the
  new ones up to order; so an order in which nodes or balancers are listed never causes an
  update, and after an update there is none to do.\<close>

lemma outdated_up_to_order:
  "outdated (sort (sliceToStatus addrs)) ings =
     filter (\<lambda>ing. mset (ing_loadBalancer (in_Ingress ing)) \<noteq>
       image_mset (\<lambda>ep. if ParseIP ep then LoadBalancerIngress '''' ep else LoadBalancerIngress ep '''') (mset addrs)) ings"
proof -
  have "mset (sliceToStatus addrs) =
      image_mset (\<lambda>ep. if ParseIP ep then LoadBalancerIngress '''' ep else LoadBalancerIngress ep '''') (mset addrs)"
    by (simp add: sliceToStatus_def if_distrib if_not_P cong: if_cong) (meson image_mset_cong)
  then show ?thesis
    unfolding outdated_def ingressSliceEqual_iff sort_eq_iff by simp
qed

text \<open>The addresses of the controller. Without a published service they are the external
  addresses of the nodes of the running pods, each once.\<close>

lemma runningAddresses_of_nodes:
  assumes "ss_PublishService s = ''''"
    and "sc_listPods (ss_Client s) (pi_namespace (ss_pod s)) (pi_labels (ss_pod s)) = Inr pods"
  shows "\<exists>addrs. runningAddresses s = Inr addrs \<and> distinct addrs \<and>
     set addrs = (\<lambda>p. GetNodeIPOrName (sc_getNode (ss_Client s)) (pod_nodeName p) False) `
       {p \<in> set pods. pod_phase p = PodRunning}"
proof -
  have "distinct (node_addresses getNode pods addrs) \<and>
      set (node_addresses getNode pods addrs) = set addrs \<union>
        (\<lambda>p. GetNodeIPOrName getNode (pod_nodeName p) False) ` {p \<in> set pods. pod_phase p = PodRunning}"
    if "distinct addrs" for getNode addrs
    using that by (induction pods arbitrary: addrs) (auto simp: Let_def)
  from this[of "[]"] assms show ?thesis by (simp add: runningAddresses_def)
qed


text \<open>An instance of the API server: an association list of Ingresses.\<close>

type_synonym example_api = "((string \<times> string), k8s_ingress) go_map"

definition example_view :: "example_api \<Rightarrow> string \<times> string \<rightharpoonup> k8s_ingress" where
  "example_view a k = (case map_of a k of Some i \<Rightarrow> if name_of i = k then Some i else None | None \<Rightarrow> None)"

definition example_pod :: pod where
  "example_pod = \<lparr>pod_meta = example_meta ''wls'' ''a'', pod_phase = ''Running'', pod_nodeName = ''n1''\<rparr>"

definition example_api_client :: "example_api status_client" where
  "example_api_client = \<lparr>
     sc_getService = (\<lambda>ns n. Inl ''not found''),
     sc_listPods = (\<lambda>ns ls. Inr [example_pod]),
     sc_getNode = (\<lambda>n. Inr [\<lparr>na_type = ''ExternalIP'', na_address = ''192.0.2.1''\<rparr>]),
     sc_getIngress = (\<lambda>ns n a. case example_view a (ns, n) of Some i \<Rightarrow> Inr i | None \<Rightarrow> Inl ''not found''),
     sc_UpdateStatus = (\<lambda>i a. (None, case example_view a (name_of i) of
        None \<Rightarrow> a
      | Some j \<Rightarrow> AList.update (name_of i) (j\<lparr>ing_loadBalancer := ing_loadBalancer i\<rparr>) a)) \<rparr>"

definition example_status :: "example_api statusSync" where
  "example_status = \<lparr>ss_Client = example_api_client, ss_UpdateStatusOnShutdown = True, ss_PublishService = '''',
     ss_pod = \<lparr>pi_name = ''a'', pi_namespace = ''wls'', pi_labels = []\<rparr>\<rparr>"

lemma example_api_laws: "api_laws (ss_Client example_status) example_view"
  unfolding api_laws_def
  by (auto simp: example_status_def example_api_client_def example_view_def update_conv' fun_eq_iff
      split: option.splits if_splits)

lemma updateStatus_publishes_witness:
  "map_option ing_loadBalancer (example_view (updateStatus rev example_status [example_ingress ''default'' ''web'' []]
      [LoadBalancerIngress '''' ''192.0.2.1'']
      [((''default'', ''web''), in_Ingress (example_ingress ''default'' ''web'' []))]) (''default'', ''web'')) =
   Some [LoadBalancerIngress '''' ''192.0.2.1'']"
proof -
  have "name_of (in_Ingress (example_ingress ''default'' ''web'' [])) = (''default'', ''web'')"
    "ing_loadBalancer (in_Ingress (example_ingress ''default'' ''web'' [])) = []"
    by (simp_all add: name_of_def example_ingress_def example_meta_def)
  then show ?thesis
    using updateStatus_publishes[OF example_api_laws range_order_rev, of "[example_ingress ''default'' ''web'' []]"
        "[LoadBalancerIngress '''' ''192.0.2.1'']" "[((''default'', ''web''), in_Ingress (example_ingress ''default'' ''web'' []))]"]
    by (simp add: example_view_def)
qed

text \<open>The endpoints of a rule's service are among the active endpoints.\<close>

lemma active_endpoints_ConsE:
  assumes "active_endpoints st (nr # rs) acc = Inr (eps, None)"
  obtains b ep where "rule_backend (snd nr) = Inr b"
    and "st_GetServiceEndpoints st (fst nr @ ''/'' @ ib_serviceName b) = Inr ep"
    and "active_endpoints st rs (acc @ concat (map (\<lambda>ss. map ea_ip (ss_addresses ss)) (eps_subsets ep))) = Inr (eps, None)"
proof -
  from assms obtain b where b: "rule_backend (snd nr) = Inr b" by auto
  with assms that[OF b] show thesis
    by (cases "st_GetServiceEndpoints st (fst nr @ ''/'' @ ib_serviceName b)") simp_all
qed

lemma active_endpoints_acc:
  "active_endpoints st rs acc = Inr (eps, None) \<Longrightarrow> set acc \<subseteq> set eps"
proof (induction rs arbitrary: acc)
  case Nil
  then show ?case by simp
next
  case (Cons nr rs)
  from Cons.prems show ?case
  proof (cases rule: active_endpoints_ConsE)
    case (1 b ep)
    from Cons.IH[OF 1(3)] show ?thesis by simp
  qed
qed

lemma active_endpoints_cover:
  assumes "active_endpoints st rs acc = Inr (eps, None)" and "nr \<in> set rs"
  shows "\<exists>ep. rule_ok (snd nr) \<and>
     st_GetServiceEndpoints st (fst nr @ ''/'' @ ib_serviceName (first_backend (snd nr))) = Inr ep \<and>
     (\<forall>ss \<in> set (eps_subsets ep). ea_ip ` set (ss_addresses ss) \<subseteq> set eps)"
  using assms
proof (induction rs arbitrary: acc)
  case Nil
  then show ?case by simp
next
  case (Cons x rs)
  from Cons.prems(1) obtain b ep where b: "rule_backend (snd x) = Inr b"
    and ep: "st_GetServiceEndpoints st (fst x @ ''/'' @ ib_serviceName b) = Inr ep"
    and rest: "active_endpoints st rs (acc @ concat (map (\<lambda>ss. map ea_ip (ss_addresses ss)) (eps_subsets ep))) = Inr (eps, None)"
    by (rule active_endpoints_ConsE)
  have ok: "rule_ok (snd x)" using b rule_backend_panics[of "snd x"] by (cases "rule_ok (snd x)") auto
  then have fb: "b = first_backend (snd x)" using b rule_backend_ok by auto
  show ?case
  proof (cases "nr = x")
    case True
    from active_endpoints_acc[OF rest]
    have "\<forall>ss \<in> set (eps_subsets ep). ea_ip ` set (ss_addresses ss) \<subseteq> set eps" by auto
    with True ok ep fb show ?thesis by blast
  next
    case False
    with Cons.prems(2) Cons.IH[OF rest] show ?thesis by simp
  qed
qed

end
