(* ===== verification/ControllerSync.thy ===== *)
theory ControllerSync
  imports Handler StatusSync K8sStore "HOL-Library.Word"
begin

text \<open>
  The controller itself: \<open>internal/ingress/controller/wls.go\<close>, \<open>syncIngress\<close> of \<open>controller.go\<close>
  and the leader election callbacks of \<open>status.go\<close>.

  The state is the record \<open>controller\<close>; the redis world of the session manager is passed
  along. The rate limiter only delays. Channels that are only ever closed are booleans (an
  option where the field starts as a nil channel). A panic is an \<open>Inl\<close>.
\<close>

section \<open>Model\<close>

text \<open>
  The settings. \<open>Client\<close> is an argument where it is used; \<open>ResyncPeriod\<close> is read nowhere, and
  \<open>SyncRateLimit\<close> only sets the delays of the rate limiter.
\<close>

record controller_config =
  cc_APIServerHost :: string
  cc_KubeConfigFile :: string
  cc_DefaultService :: string
  cc_Namespace :: string
  cc_ListenPorts :: "listen_ports option"
  cc_EnableMetrics :: bool
  cc_ElectionID :: string
  cc_PublishService :: string
  cc_RedisSentinelService :: string
  cc_RedisSentinelPort :: int
  cc_RedisMasterName :: string
  cc_RedisMaxRetries :: int
  cc_RedisMinRetryBackoff :: int
  cc_RedisMaxRetryBackoff :: int
  cc_RedisNamespacePrefix :: string

record controller =
  ct_runningConfig :: "configuration option"
  ct_proxy :: wls_handler
  ct_currentLeader :: "32 word"
  ct_isShuttingDown :: bool
  ct_stopCh :: bool
  ct_httpListener :: bool
  ct_idleConnsClosed :: "bool option"

text \<open>\<open>Inl\<close> is the message the process dies with; \<open>pod\<close> is what \<open>GetPodDetails\<close> returned.\<close>

definition NewWLSController ::
  "controller_config \<Rightarrow> 'a status_client \<Rightarrow> pod_info or_error
     \<Rightarrow> (controller \<times> manager_config \<times> 'a statusSync) or_error" where
  "NewWLSController cfg c pod =
     (let redisURL = cc_RedisSentinelService cfg @ '':'' @ Itoa (cc_RedisSentinelPort cfg);
          running = Some new_configuration;
          mgr = \<lparr>MasterName = cc_RedisMasterName cfg, SentinelAddrs = [redisURL],
                 RedisMaxRetries = cc_RedisMaxRetries cfg, RedisMinRetryBackoff = cc_RedisMinRetryBackoff cfg,
                 RedisMaxRetryBackoff = cc_RedisMaxRetryBackoff cfg,
                 RedisNamespacePrefix = cc_RedisNamespacePrefix cfg\<rparr>
      in case pod of
           Inl err \<Rightarrow> Inl (''unexpected error obtaining pod information: '' @ err)
         | Inr p \<Rightarrow> Inr (
             \<lparr>ct_runningConfig = running, ct_proxy = InstallHandler running, ct_currentLeader = 0,
              ct_isShuttingDown = False, ct_stopCh = False, ct_httpListener = False, ct_idleConnsClosed = None\<rparr>,
             mgr,
             \<lparr>ss_Client = c, ss_UpdateStatusOnShutdown = True, ss_PublishService = cc_PublishService cfg, ss_pod = p\<rparr>))"

definition setLeader :: "bool \<Rightarrow> controller \<Rightarrow> controller" where
  "setLeader leader n = (let i = (if leader then 1 else 0) in n\<lparr>ct_currentLeader := i\<rparr>)"

definition isLeader :: "controller \<Rightarrow> bool" where
  "isLeader n \<longleftrightarrow> ct_currentLeader n \<noteq> 0"

text \<open>The addresses of all endpoints of a configuration, as the loops of \<open>OnUpdate\<close> collect them.\<close>

definition collect_ips :: "configuration_backend option list \<Rightarrow> string list res" where
  "collect_ips services =
     fold_res (\<lambda>p ips.
       bind_res (deref p) (\<lambda>service.
       bind_res (deref (cb_Backend service)) (\<lambda>b.
         Inr (ips @ map Address (elems (be_Endpoints b)))))) services []"

definition OnUpdate ::
  "((string \<times> string) list \<Rightarrow> (string \<times> string) list) \<Rightarrow> 'w manager \<Rightarrow> configuration \<Rightarrow> controller \<Rightarrow> 'w
     \<Rightarrow> (go_error option \<times> controller \<times> 'w) res" where
  "OnUpdate ord ls ingressIn n w =
     (let n1 = n\<lparr>ct_runningConfig := Some ingressIn, ct_proxy := UpdateConfiguration (Some ingressIn) (ct_proxy n)\<rparr>
      in if isLeader n1
         then bind_res (collect_ips (elems (Services ingressIn))) (\<lambda>ips. Inr (None, n1, snd (Clean ord ls ips w)))
         else Inr (None, n1, w))"

text \<open>
  \<open>ings\<close> is what \<open>ListIngresses\<close> returns, \<open>sord\<close> and \<open>ord\<close> are the orders of the maps of servers and
  of session entries.
\<close>

definition controller_syncIngress ::
  "((string \<times> backend option) list \<Rightarrow> (string \<times> backend option) list) \<Rightarrow>
   ((string \<times> string) list \<Rightarrow> (string \<times> string) list) \<Rightarrow> k8s_lib \<Rightarrow> storer \<Rightarrow> 'w manager \<Rightarrow>
   bool \<Rightarrow> ingress list \<Rightarrow> controller \<Rightarrow> 'w \<Rightarrow> (go_error option \<times> controller \<times> 'w) res" where
  "controller_syncIngress sord ord lib st ls shuttingDown ings n w =
     (if shuttingDown then Inr (None, n, w)
      else bind_res (getConfiguration sord lib st ings) (\<lambda>generated.
        if Configuration_Equal (ct_runningConfig n) (Some generated) then Inr (None, n, w)
        else OnUpdate ord ls generated n w))"

definition election_name :: "string \<Rightarrow> string \<Rightarrow> string" where
  "election_name electionID ingressClass =
     (if ingressClass \<noteq> '''' then electionID @ ''-'' @ ingressClass else electionID @ ''-'' @ DefaultClass)"

text \<open>
  One round of the event loop of \<open>Start\<close>. Every case ends the \<open>select\<close> only: the loop has no
  exit. \<open>None\<close> in \<open>UpdateCh\<close> is a value that is not a \<open>store.Event\<close>.
\<close>

datatype 'x loop_input = ErrCh string | UpdateCh "'x event option" | StopCh

definition event_loop_round ::
  "'q workqueue \<Rightarrow> ('x k8s_object \<Rightarrow> string or_error) \<Rightarrow> controller \<Rightarrow> 'x loop_input \<times> int \<Rightarrow> 'q task_queue \<Rightarrow> 'q task_queue" where
  "event_loop_round wq fn n input q =
     (case fst input of
        UpdateCh (Some evt) \<Rightarrow>
          if ct_isShuttingDown n then q else EnqueueSkippableTask wq fn (snd input) (ev_Obj evt) q
      | _ \<Rightarrow> q)"

definition event_loop ::
  "'q workqueue \<Rightarrow> ('x k8s_object \<Rightarrow> string or_error) \<Rightarrow> controller \<Rightarrow> ('x loop_input \<times> int) list \<Rightarrow> 'q task_queue \<Rightarrow> 'q task_queue" where
  "event_loop wq fn n inputs q = fold (event_loop_round wq fn n) inputs q"

text \<open>The goroutine that starts the listener, and \<open>Stop\<close>. Closing a nil channel panics.\<close>

definition close_nilable :: "bool option \<Rightarrow> bool res" where
  "close_nilable ch = (case ch of None \<Rightarrow> Inl CloseOfNilChannel | Some c \<Rightarrow> close_channel c)"

definition start_listener :: "controller \<Rightarrow> controller" where
  "start_listener n = n\<lparr>ct_idleConnsClosed := Some False, ct_httpListener := True\<rparr>"

definition Stop_controller ::
  "'q workqueue \<Rightarrow> (ingress list \<Rightarrow> ingress list) \<Rightarrow> 'a statusSync \<Rightarrow> ingress list \<Rightarrow> 'w manager \<Rightarrow> controller
     \<Rightarrow> 'q task_queue \<times> 'a \<Rightarrow> 'w \<Rightarrow> (controller \<times> ('q task_queue \<times> 'a) \<times> 'w) res" where
  "Stop_controller wq sched s ings ls n a w =
     (let n1 = n\<lparr>ct_isShuttingDown := True\<rparr>;
          a1 = status_Shutdown wq sched s ings a
      in bind_res (close_channel (ct_stopCh n1)) (\<lambda>ch.
         let w1 = Stop ls w in
         if \<not> ct_httpListener n1 then Inl NilDereference
         else bind_res (close_nilable (ct_idleConnsClosed n1)) (\<lambda>idle.
                Inr (n1\<lparr>ct_stopCh := ch, ct_idleConnsClosed := Some idle\<rparr>, a1, w1))))"

subsection \<open>Leader election\<close>

text \<open>
  The variables the callbacks share: \<open>stopCh\<close> (\<open>None\<close> while nil, else whether it is closed), how many
  times the elector and the status syncer have been started, and the gauge of the election's
  name in the metrics (\<open>internal/ingress/metric\<close>).
\<close>

record leader_election =
  le_stopCh :: "bool option"
  le_runs :: nat
  le_statusRuns :: nat
  le_gauge :: int

definition metric_OnStartedLeading :: "leader_election \<Rightarrow> leader_election" where
  "metric_OnStartedLeading le = le\<lparr>le_gauge := 1\<rparr>"

definition metric_OnStoppedLeading :: "leader_election \<Rightarrow> leader_election" where
  "metric_OnStoppedLeading le = le\<lparr>le_gauge := 0\<rparr>"

definition newLeaderCtx :: "leader_election \<Rightarrow> leader_election" where
  "newLeaderCtx le = le\<lparr>le_runs := le_runs le + 1\<rparr>"

definition setupLeaderElection :: leader_election where
  "setupLeaderElection = newLeaderCtx \<lparr>le_stopCh = None, le_runs = 0, le_statusRuns = 0, le_gauge = 0\<rparr>"

definition OnStartedLeading :: "leader_election \<times> controller \<Rightarrow> leader_election \<times> controller" where
  "OnStartedLeading s =
     (let le = (fst s)\<lparr>le_stopCh := Some False\<rparr>;
          le' = le\<lparr>le_statusRuns := le_statusRuns le + 1\<rparr>
      in (metric_OnStartedLeading le', setLeader True (snd s)))"

definition OnStoppedLeading :: "leader_election \<times> controller \<Rightarrow> (leader_election \<times> controller) res" where
  "OnStoppedLeading s =
     bind_res (close_nilable (le_stopCh (fst s))) (\<lambda>ch.
       Inr (metric_OnStoppedLeading (newLeaderCtx ((fst s)\<lparr>le_stopCh := Some ch\<rparr>)), setLeader False (snd s)))"


section \<open>Equal configurations route alike\<close>

abbreviation hostname :: "configuration_backend option \<Rightarrow> string" where
  "hostname p \<equiv> cb_Hostname (the p)"

text \<open>What the controller builds: no nil pointers, every host once, and no empty host.\<close>

definition config_ok :: "configuration \<Rightarrow> bool" where
  "config_ok c \<longleftrightarrow> config_wf c \<and> distinct (map hostname (elems (Services c))) \<and>
     '''' \<notin> set (map hostname (elems (Services c)))"

definition endpoints_for :: "configuration \<Rightarrow> string \<Rightarrow> endpoint slice" where
  "endpoints_for c host = (case find (\<lambda>p. hostname p = host) (elems (Services c)) of
     None \<Rightarrow> None | Some p \<Rightarrow> be_Endpoints (the (cb_Backend (the p))))"

lemma handler_getEndpoints_config:
  assumes "targetConfig h = Some c" and "config_wf c"
  shows "handler_getEndpoints h host = Inr (endpoints_for c host)"
  using assms find_service_wf[of "elems (Services c)" host]
  by (cases "Services c") (simp_all add: handler_getEndpoints_def endpoints_for_def config_wf_def)

lemma Equal_endpoints_for:
  assumes "Configuration_Equal (Some c1) (Some c2)" and "config_ok c1" and "config_ok c2"
  shows "compareEndpoints (endpoints_for c1 host) (endpoints_for c2 host)"
proof -
  let ?xs = "elems (Services c1)" and ?ys = "elems (Services c2)"
  from assms(1) have "same_elements ConfigurationBackend_Equal ?xs ?ys"
    by (simp add: equal_simps compareServices_def cb_eq.compare_slices_iff)
  then obtain zs where zs: "mset zs = mset ?ys" "list_all2 ConfigurationBackend_Equal ?xs zs"
    by (auto simp: same_elements_def)
  have wf: "\<exists>s b. p = Some s \<and> cb_Backend s = Some b" if "p \<in> set ?xs \<union> set ?ys" for p
    using that assms(2,3) by (auto simp: config_ok_def config_wf_def)
  have "list_all2 (\<lambda>x z. ConfigurationBackend_Equal x z \<and> x \<in> set ?xs \<and> z \<in> set ?ys) ?xs zs"
    using zs(2) mset_eq_setD[OF zs(1)] by (auto simp: list_all2_conv_all_nth)
  then have "rel_option (\<lambda>x z. ConfigurationBackend_Equal x z \<and> x \<in> set ?xs \<and> z \<in> set ?ys)
      (find (\<lambda>p. hostname p = host) ?xs) (find (\<lambda>p. hostname p = host) zs)"
  proof (rule find_list_all2)
    fix x z assume "ConfigurationBackend_Equal x z \<and> x \<in> set ?xs \<and> z \<in> set ?ys"
    with wf[of x] wf[of z] show "(hostname x = host) = (hostname z = host)" by (auto simp: equal_simps)
  qed
  also have "find (\<lambda>p. hostname p = host) zs = find (\<lambda>p. hostname p = host) ?ys"
    using zs(1) assms(3) by (intro find_key_perm) (simp_all add: config_ok_def)
  finally have rel: "rel_option (\<lambda>x z. ConfigurationBackend_Equal x z \<and> x \<in> set ?xs \<and> z \<in> set ?ys)
      (find (\<lambda>p. hostname p = host) ?xs) (find (\<lambda>p. hostname p = host) ?ys)" .
  then show ?thesis
  proof (cases rule: option.rel_cases)
    case None
    then show ?thesis by (simp add: endpoints_for_def compareEndpoints_def ep_eq.compare_slices_refl)
  next
    case (Some x z)
    with wf[of x] wf[of z] show ?thesis by (auto simp: endpoints_for_def equal_simps)
  qed
qed

lemma compareEndpoints_servers:
  assumes "compareEndpoints a b"
  shows "(a = None \<longleftrightarrow> b = None) \<and> mset (map server_key (elems a)) = mset (map server_key (elems b))"
proof -
  from assms have n: "a = None \<longleftrightarrow> b = None" and "same_elements compareEndpointsFunc (elems a) (elems b)"
    by (simp_all add: compareEndpoints_def ep_eq.compare_slices_iff)
  then obtain zs where zs: "mset zs = mset (elems b)" "list_all2 compareEndpointsFunc (elems a) zs"
    by (auto simp: same_elements_def)
  from zs(2) have "map server_key (elems a) = map server_key zs"
    by (induction rule: list_all2_induct) (auto simp: server_key_def equal_simps)
  with zs(1) n show ?thesis by (metis mset_map)
qed

section \<open>The generated configuration\<close>

lemma generated_config:
  assumes "rules_ok ings" and "range_order ord" and "getConfiguration ord lib st ings = Inr c"
  shows "config_ok c" and "endpoints_for c host = (case route ings host of
       None \<Rightarrow> None
     | Some nr \<Rightarrow> be_Endpoints (rule_upstream lib st (the (builder lib ings (rule_name lib nr)))))"
proof -
  obtain servers where s: "c = \<lparr>Services = go_append None (map service_entry (ord servers)), ControllerPodsCount = 0\<rparr>"
    "distinct (map fst servers)"
    "map_of servers = (\<lambda>host. map_option
       (\<lambda>nr. map_option (rule_upstream lib st) (builder lib ings (rule_name lib nr))) (route ings host))"
    using getConfiguration_total[OF assms(1), of ord lib st] assms(3) by (metis Inr_inject)
  have el: "elems (Services c) = map service_entry (ord servers)" by (simp add: s(1))
  have d: "distinct (map fst (ord servers))" using s(2) assms(2) by (simp add: range_order_distinct)
  have hosts: "map hostname (map service_entry xs) = map fst xs" for xs
    by (induction xs) (simp_all add: service_entry_def)
  have "\<exists>u. b = Some u" if "(h, b) \<in> set (ord servers)" for h b
  proof -
    from that have "map_of servers h = Some b" using s(2) range_order_set[OF assms(2)] by simp
    then obtain nr where nr: "route ings h = Some nr"
      "b = map_option (rule_upstream lib st) (builder lib ings (rule_name lib nr))" by (auto simp: s(3))
    with builder_exists[of nr ings lib] route_in_rules[OF nr(1)] show ?thesis by auto
  qed
  then have "config_wf c" by (auto simp: config_wf_def el service_entry_def)
  moreover have "'''' \<notin> set (map fst (ord servers))"
  proof
    assume "'''' \<in> set (map fst (ord servers))"
    then have "map_of servers '''' \<noteq> None" by (simp add: range_order_set[OF assms(2)] map_of_eq_None_iff)
    then show False by (simp add: s(3) route_def)
  qed
  ultimately show "config_ok c" unfolding config_ok_def el hosts using d by simp
  have m: "map_of (ord servers) = map_of servers" by (rule range_order_map_of[OF assms(2) s(2)])
  show "endpoints_for c host = (case route ings host of
       None \<Rightarrow> None
     | Some nr \<Rightarrow> be_Endpoints (rule_upstream lib st (the (builder lib ings (rule_name lib nr)))))"
  proof (cases "route ings host")
    case None
    then show ?thesis by (simp add: endpoints_for_def el find_service_entry m s(3))
  next
    case (Some nr)
    with builder_exists[of nr ings lib] route_in_rules[OF Some] show ?thesis
      by (auto simp: endpoints_for_def el find_service_entry m s(3) service_entry_def)
  qed
qed


text \<open>The servers do not depend on the order in which the configuration lists them.\<close>

lemma same_servers:
  assumes "rules_ok ings"
  shows "\<exists>servers. \<forall>ord. getConfiguration ord lib st ings =
     Inr \<lparr>Services = go_append None (map service_entry (ord servers)), ControllerPodsCount = 0\<rparr>"
proof -
  obtain ups servers where "createUpstreams lib st ings = Inr ups" "createServers lib ings ups = Inr servers"
    using createServers_total[OF assms] by metis
  moreover have "(\<lambda>(hostname, b). Some \<lparr>cb_Backend = b, cb_Hostname = hostname\<rparr>) = service_entry"
    by (auto simp: service_entry_def)
  ultimately show ?thesis by (intro exI[of _ servers]) (simp add: getConfiguration_def)
qed

section \<open>The controller over time\<close>

definition controller_ok :: "controller \<Rightarrow> bool" where
  "controller_ok n \<longleftrightarrow> proxies_ok (ct_proxy n) \<and>
     (\<exists>c. ct_runningConfig n = Some c \<and> targetConfig (ct_proxy n) = Some c \<and> config_ok c)"

text \<open>
  The steps of one replica: a synchronisation (with any Ingresses and any orders of the maps),
  a change of leadership, the start of the listener, a request, and any change of the redis
  world from outside.
\<close>

inductive controller_step ::
  "handler_env \<Rightarrow> k8s_lib \<Rightarrow> 'w manager \<Rightarrow> controller \<times> 'w \<Rightarrow> controller \<times> 'w \<Rightarrow> bool"
  for env :: handler_env and lib :: k8s_lib and ls :: "'w manager" where
  sync: "range_order sord \<Longrightarrow> range_order ord \<Longrightarrow>
     controller_syncIngress sord ord lib st ls sd ings n w = Inr (err, n', w') \<Longrightarrow>
     controller_step env lib ls (n, w) (n', w')"
| lead: "controller_step env lib ls (n, w) (setLeader b n, w)"
| listen: "controller_step env lib ls (n, w) (start_listener n, w)"
| serve: "handleRootWLS env ls (ct_proxy n) w r i = Inr (h', w', oc) \<Longrightarrow>
     controller_step env lib ls (n, w) (n\<lparr>ct_proxy := h'\<rparr>, w')"
| world: "controller_step env lib ls (n, w) (n, w')"

lemma getConfiguration_rules_ok: "getConfiguration ord lib st ings = Inr c \<Longrightarrow> rules_ok ings"
  using getConfiguration_panics[of ings ord lib st] by force

lemma OnUpdate_result:
  assumes "OnUpdate ord ls c n w = Inr (err, n', w')"
  shows "err = None" and "n' = n\<lparr>ct_runningConfig := Some c, ct_proxy := UpdateConfiguration (Some c) (ct_proxy n)\<rparr>"
    and "\<not> isLeader n \<Longrightarrow> w' = w"
  using assms by (auto simp: OnUpdate_def Let_def isLeader_def split: if_splits)

lemma syncIngress_cases:
  assumes "controller_syncIngress sord ord lib st ls sd ings n w = Inr (err, n', w')"
  obtains (down) "sd" "n' = n" "w' = w" "err = None"
  | (unchanged) c where "\<not> sd" "getConfiguration sord lib st ings = Inr c"
      "Configuration_Equal (ct_runningConfig n) (Some c)" "n' = n" "w' = w" "err = None"
  | (reloaded) c where "\<not> sd" "getConfiguration sord lib st ings = Inr c"
      "\<not> Configuration_Equal (ct_runningConfig n) (Some c)" "OnUpdate ord ls c n w = Inr (err, n', w')"
  using assms by (auto simp: controller_syncIngress_def split: if_splits)

lemma controller_ok_sync:
  assumes "range_order sord" and "controller_syncIngress sord ord lib st ls sd ings n w = Inr (err, n', w')"
    and "controller_ok n"
  shows "controller_ok n'"
  using assms(2)
proof (cases rule: syncIngress_cases)
  case (reloaded c)
  have "config_ok c" using generated_config(1)[OF getConfiguration_rules_ok[OF reloaded(2)] assms(1) reloaded(2)] .
  with OnUpdate_result(2)[OF reloaded(4)] assms(3) show ?thesis
    by (auto simp: controller_ok_def UpdateConfiguration_def proxies_ok_def)
qed (use assms(3) in simp_all)

lemma controller_step_ok:
  "controller_step env lib ls s s' \<Longrightarrow> controller_ok (fst s) \<Longrightarrow> controller_ok (fst s')"
proof (induction rule: controller_step.induct)
  case (sync sord ord st sd ings n w err n' w')
  then show ?case using controller_ok_sync by simp
next
  case (serve n w r i h' w' oc)
  with handleRootWLS_inv[OF serve(1)] show ?case by (simp add: controller_ok_def)
qed (simp_all add: controller_ok_def setLeader_def start_listener_def)

lemma controller_ok_new:
  "NewWLSController cfg cl pod = Inr (n, mc, ss) \<Longrightarrow> controller_ok n"
  by (auto simp: NewWLSController_def Let_def controller_ok_def InstallHandler_def proxies_ok_def config_ok_def
      config_wf_def new_configuration_def split: sum.splits)

interpretation controller_run: invariant_steps "controller_step env lib ls" "\<lambda>s. controller_ok (fst s)"
  for env :: handler_env and lib :: k8s_lib and ls :: "'w manager"
  by unfold_locales (rule controller_step_ok)

lemma reachable_controller_ok:
  assumes "(controller_step env lib ls)\<^sup>*\<^sup>* (n0, w0) (n, w)" and "NewWLSController cfg cl pod = Inr (n0, mc, ss)"
  shows "controller_ok n"
  using controller_run.reach_inv[OF assms(1)] controller_ok_new[OF assms(2)] by simp

lemma collect_ips_wf:
  assumes "\<forall>p \<in> set ps. \<exists>s b. p = Some s \<and> cb_Backend s = Some b"
  shows "collect_ips ps = Inr (concat (map (\<lambda>p. map Address (elems (be_Endpoints (the (cb_Backend (the p)))))) ps))"
proof -
  have "fold_res (\<lambda>p ips. bind_res (deref p) (\<lambda>service. bind_res (deref (cb_Backend service)) (\<lambda>b.
      Inr (ips @ map Address (elems (be_Endpoints b)))))) ps acc =
    Inr (acc @ concat (map (\<lambda>p. map Address (elems (be_Endpoints (the (cb_Backend (the p)))))) ps))" for acc
    using assms by (induction ps arbitrary: acc) auto
  then show ?thesis by (simp add: collect_ips_def)
qed

text \<open>The addresses a configuration routes to.\<close>

definition config_addresses :: "configuration \<Rightarrow> string set" where
  "config_addresses c = (\<Union>host. Address ` set (elems (endpoints_for c host)))"

lemma collect_ips_config:
  assumes "config_ok c"
  shows "\<exists>ips. collect_ips (elems (Services c)) = Inr ips \<and> set ips = config_addresses c"
proof -
  let ?ps = "elems (Services c)"
  have wf: "\<forall>p \<in> set ?ps. \<exists>s b. p = Some s \<and> cb_Backend s = Some b"
    using assms by (simp add: config_ok_def config_wf_def)
  have "p \<in> set ?ps \<longleftrightarrow> (\<exists>host. find (\<lambda>p. hostname p = host) ?ps = Some p)" for p
    using assms by (auto simp: config_ok_def find_key_iff)
  then have "config_addresses c = (\<Union>p \<in> set ?ps. Address ` set (elems (be_Endpoints (the (cb_Backend (the p))))))"
    by (fastforce simp: config_addresses_def endpoints_for_def split: option.splits)
  with collect_ips_wf[OF wf] show ?thesis by simp
qed


section \<open>Properties\<close>

lemma sync_returns:
  assumes "rules_ok ings" and "range_order sord"
  shows "\<exists>n' w'. controller_syncIngress sord ord lib st ls sd ings n w = Inr (None, n', w')"
proof -
  obtain c where c: "getConfiguration sord lib st ings = Inr c"
    using getConfiguration_total[OF assms(1), of sord lib st] by metis
  with generated_config(1)[OF assms c] collect_ips_config[of c] show ?thesis
    by (auto simp: controller_syncIngress_def OnUpdate_def Let_def)
qed

text \<open>After a sync the proxy serves a configuration equal to the generated one.\<close>

lemma sync_serves_generated:
  assumes "range_order sord" and "controller_syncIngress sord ord lib st ls False ings n w = Inr (err, n', w')"
    and "controller_ok n"
  obtains c r where "getConfiguration sord lib st ings = Inr c" and "config_ok c" and "config_ok r"
    and "ct_runningConfig n' = Some r" and "targetConfig (ct_proxy n') = Some r"
    and "Configuration_Equal (Some r) (Some c)"
proof -
  have ok': "controller_ok n'" by (rule controller_ok_sync[OF assms(1,2,3)])
  then obtain r where r: "ct_runningConfig n' = Some r" "targetConfig (ct_proxy n') = Some r" "config_ok r"
    by (auto simp: controller_ok_def)
  obtain c where c: "getConfiguration sord lib st ings = Inr c" "Configuration_Equal (Some r) (Some c)"
    using assms(2)
  proof (cases rule: syncIngress_cases)
    case (unchanged c)
    with r(1) that show thesis by simp
  next
    case (reloaded c)
    with OnUpdate_result(2)[OF reloaded(4)] r(1) have "r = c" by simp
    with reloaded(2) that show thesis by (simp add: cfg_eq.eq_refl)
  qed simp
  have "config_ok c" by (rule generated_config(1)[OF getConfiguration_rules_ok[OF c(1)] assms(1) c(1)])
  with that r c show thesis by blast
qed

text \<open>
  The handler serves the rules: for every host it finds the servers of the service that the first
  rule for the host names, and none for a host without a rule.
\<close>

definition serves_rules :: "k8s_lib \<Rightarrow> storer \<Rightarrow> ingress list \<Rightarrow> wls_handler \<Rightarrow> bool" where
  "serves_rules lib st ings h \<longleftrightarrow> (\<forall>host. \<exists>eps. handler_getEndpoints h host = Inr eps \<and>
     (case route ings host of
        None \<Rightarrow> eps = None
      | Some (ns, rule) \<Rightarrow> eps \<noteq> None \<and> mset (map server_key (elems eps)) =
          mset (map server_key (elems (fst (serviceEndpoints lib st
            (ns @ ''/'' @ ib_serviceName (first_backend rule))
            (lib_intstr_String lib (ib_servicePort (first_backend rule)))))))))"

lemma serves_generated:
  assumes "rules_ok ings" and "unambiguous lib ings" and "range_order sord"
    and "getConfiguration sord lib st ings = Inr c" and "config_ok c"
    and "config_ok r" and "targetConfig h = Some r" and "Configuration_Equal (Some r) (Some c)"
  shows "serves_rules lib st ings h"
proof -
  have "\<exists>eps. handler_getEndpoints h host = Inr eps \<and>
        (case route ings host of
           None \<Rightarrow> eps = None
         | Some (ns, rule) \<Rightarrow> eps \<noteq> None \<and> mset (map server_key (elems eps)) =
             mset (map server_key (elems (fst (serviceEndpoints lib st
               (ns @ ''/'' @ ib_serviceName (first_backend rule))
               (lib_intstr_String lib (ib_servicePort (first_backend rule))))))))" for host
  proof -
    have h: "handler_getEndpoints h host = Inr (endpoints_for r host)"
      using assms(6,7) by (simp add: handler_getEndpoints_config config_ok_def)
    note s = compareEndpoints_servers[OF Equal_endpoints_for[OF assms(8,6,5), of host]]
    show ?thesis
    proof (cases "route ings host")
      case None
      with s h generated_config(2)[OF assms(1,3,4), of host] show ?thesis by simp
    next
      case (Some nr)
      obtain ns rule where nr: "nr = (ns, rule)" by (cases nr)
      have "map_option (rule_upstream lib st) (builder lib ings (rule_name lib nr)) = Some (rule_upstream lib st nr)"
        using builder_unambiguous[OF assms(2)] route_in_rules[OF Some] by simp
      then have "rule_upstream lib st (the (builder lib ings (rule_name lib nr))) = rule_upstream lib st nr" by auto
      with generated_config(2)[OF assms(1,3,4), of host] Some
      have "endpoints_for c host = be_Endpoints (rule_upstream lib st nr)" by simp
      then have
        "endpoints_for c host = Some (elems (fst (serviceEndpoints lib st
             (ns @ ''/'' @ ib_serviceName (first_backend rule))
             (lib_intstr_String lib (ib_servicePort (first_backend rule))))))"
        by (simp add: rule_upstream_def be_Endpoints_build_upstream nr)
      with s h Some nr show ?thesis by auto
    qed
  qed
  then show ?thesis unfolding serves_rules_def by blast
qed

text \<open>C5: the proxy serves what the Ingresses say. In every reachable state of the controller, a
  synchronisation with well-formed rules returns without an error or a panic; afterwards the
  handler finds for every host the servers of the service that the first rule for that host
  names (the rule of the oldest Ingress), and none for a host without a rule; this holds
  whether the reload was skipped or not. No two services may share an upstream name.\<close>

theorem synced_proxy_routes:
  assumes "NewWLSController cfg cl pod = Inr (n0, mc, ss)"
    and "(controller_step env lib ls)\<^sup>*\<^sup>* (n0, w0) (n, w)"
    and "range_order sord" and "rules_ok ings" and "unambiguous lib ings"
  shows "\<exists>n' w'. controller_syncIngress sord ord lib st ls False ings n w = Inr (None, n', w') \<and>
     serves_rules lib st ings (ct_proxy n')"
proof -
  have ok: "controller_ok n" by (rule reachable_controller_ok[OF assms(2,1)])
  obtain n' w' where run: "controller_syncIngress sord ord lib st ls False ings n w = Inr (None, n', w')"
    using sync_returns[OF assms(4,3), of ord lib st ls False n w] by blast
  from sync_serves_generated[OF assms(3) run ok] obtain c r where
    c: "getConfiguration sord lib st ings = Inr c" "config_ok c" and
    r: "config_ok r" "targetConfig (ct_proxy n') = Some r" "Configuration_Equal (Some r) (Some c)" by metis
  with serves_generated[OF assms(4,5,3) c r(1,2,3)] run show ?thesis by blast
qed

definition example_cfg :: controller_config where
  "example_cfg = \<lparr>cc_APIServerHost = '''', cc_KubeConfigFile = '''', cc_DefaultService = '''', cc_Namespace = '''',
     cc_ListenPorts = Some \<lparr>lp_HTTP = 8080, lp_Health = 10254, lp_Default = 8181\<rparr>, cc_EnableMetrics = True,
     cc_ElectionID = ''wls-ingress-controller-leader'', cc_PublishService = '''',
     cc_RedisSentinelService = ''redis-redis-ha.redis'', cc_RedisSentinelPort = 26379, cc_RedisMasterName = ''mymaster'',
     cc_RedisMaxRetries = 3, cc_RedisMinRetryBackoff = 5 * 10 ^ 9, cc_RedisMaxRetryBackoff = 10 ^ 10,
     cc_RedisNamespacePrefix = ''WLS-ING''\<rparr>"

definition example_controller :: controller where
  "example_controller = \<lparr>ct_runningConfig = Some new_configuration, ct_proxy = InstallHandler (Some new_configuration),
     ct_currentLeader = 0, ct_isShuttingDown = False, ct_stopCh = False, ct_httpListener = False, ct_idleConnsClosed = None\<rparr>"

lemma example_new_controller:
  "\<exists>mc ss. NewWLSController example_cfg example_api_client (Inr \<lparr>pi_name = ''a'', pi_namespace = ''wls'', pi_labels = []\<rparr>) =
     Inr (example_controller, mc, ss)"
  by (simp add: NewWLSController_def Let_def example_controller_def)

abbreviation example_ings :: "ingress list" where
  "example_ings \<equiv> [example_ingress ''default'' ''i'' [example_rule ''a.com'' ''wls'']]"

lemma example_ings_ok:
  "rules_ok example_ings" "unambiguous example_lib example_ings"
  "route example_ings ''a.com'' = Some (''default'', example_rule ''a.com'' ''wls'')"
  by (simp_all add: rules_ok_def rule_ok_def unambiguous_def all_rules_def route_def example_ingress_def
      example_rule_def example_meta_def)

lemma synced_proxy_routes_witness:
  "\<exists>n' w' eps. controller_syncIngress rev rev example_lib example_storer example_manager False example_ings
       example_controller [] = Inr (None, n', w') \<and>
     handler_getEndpoints (ct_proxy n') ''a.com'' = Inr (Some eps)"
proof -
  obtain mc ss where new: "NewWLSController example_cfg example_api_client
      (Inr \<lparr>pi_name = ''a'', pi_namespace = ''wls'', pi_labels = []\<rparr>) = Inr (example_controller, mc, ss)"
    using example_new_controller by blast
  obtain n' w' where run: "controller_syncIngress rev rev example_lib example_storer example_manager False example_ings
       example_controller [] = Inr (None, n', w')"
    and h: "serves_rules example_lib example_storer example_ings (ct_proxy n')"
    using synced_proxy_routes[OF new
        rtranclp.rtrancl_refl[of "controller_step example_env example_lib example_manager" "(example_controller, [])"]
        range_order_rev example_ings_ok(1,2), of rev example_storer] by blast
  from spec[OF h[unfolded serves_rules_def], of "''a.com''"] run show ?thesis unfolding example_ings_ok(3) by auto
qed


text \<open>C6: the configuration is well-formed. In every reachable state of the controller, whatever it
  has synchronised, the handler has the running configuration, and that has no nil service and no
  nil backend, names every host once, and no empty host.\<close>

theorem reachable_configuration_typed:
  assumes "NewWLSController cfg cl pod = Inr (n0, mc, ss)" and "(controller_step env lib ls)\<^sup>*\<^sup>* (n0, w0) (n, w)"
  shows "\<exists>c. ct_runningConfig n = Some c \<and> targetConfig (ct_proxy n) = Some c \<and>
     (\<forall>p \<in> set (elems (Services c)). \<exists>s b. p = Some s \<and> cb_Backend s = Some b \<and> cb_Hostname s \<noteq> '''') \<and>
     distinct (map (\<lambda>p. cb_Hostname (the p)) (elems (Services c)))"
proof -
  from reachable_controller_ok[OF assms(2,1)] obtain c where c: "ct_runningConfig n = Some c"
    "targetConfig (ct_proxy n) = Some c" "config_wf c" "distinct (map hostname (elems (Services c)))"
    "'''' \<notin> hostname ` set (elems (Services c))" by (auto simp: controller_ok_def config_ok_def)
  have "\<exists>s b. p = Some s \<and> cb_Backend s = Some b \<and> cb_Hostname s \<noteq> ''''" if "p \<in> set (elems (Services c))" for p
    using that c(3,5) by (fastforce simp: config_wf_def image_iff)
  with c(1,2,4) show ?thesis by blast
qed

lemma reachable_configuration_typed_witness:
  "\<exists>n' w' c. controller_syncIngress rev rev example_lib example_storer example_manager False example_ings
       example_controller [] = Inr (None, n', w') \<and> ct_runningConfig n' = Some c \<and>
     (\<forall>p \<in> set (elems (Services c)). \<exists>s b. p = Some s \<and> cb_Backend s = Some b \<and> cb_Hostname s \<noteq> '''')"
proof -
  obtain mc ss where new: "NewWLSController example_cfg example_api_client
      (Inr \<lparr>pi_name = ''a'', pi_namespace = ''wls'', pi_labels = []\<rparr>) = Inr (example_controller, mc, ss)"
    using example_new_controller by blast
  obtain n' w' where run: "controller_syncIngress rev rev example_lib example_storer example_manager False example_ings
       example_controller [] = Inr (None, n', w')"
    using sync_returns[OF example_ings_ok(1) range_order_rev, of rev example_lib example_storer example_manager False
        example_controller "[]"] by blast
  have "(controller_step example_env example_lib example_manager)\<^sup>*\<^sup>* (example_controller, []) (n', w')"
    using controller_step.sync[OF range_order_rev range_order_rev run] by blast
  from reachable_configuration_typed[OF new this] run show ?thesis by blast
qed


text \<open>C20: only the leader cleans, and only what is no longer routed. A synchronisation that reloads
  the leader's configuration removes from redis exactly the sessions of the namespace whose
  endpoint is no endpoint of any host of the new configuration; every other replica, and a
  synchronisation without a change, leaves redis untouched.\<close>

theorem sync_cleans_as_leader:
  assumes "redis_laws (client ls) view" and "literal_namespace ls" and "range_order ord" and "range_order sord"
    and "getConfiguration sord lib st ings = Inr c"
    and "controller_syncIngress sord ord lib st ls False ings n w = Inr (err, n', w')"
  shows "if isLeader n \<and> \<not> Configuration_Equal (ct_runningConfig n) (Some c)
     then view w' = (\<lambda>k. if prefix (createNamespaced ls) k \<and> redis_value (view w k) \<notin> config_addresses c
                         then None else view w k)
     else w' = w"
proof -
  have ok: "config_ok c" using generated_config(1)[OF getConfiguration_rules_ok[OF assms(5)] assms(4,5)] .
  obtain ips where ips: "collect_ips (elems (Services c)) = Inr ips" "set ips = config_addresses c"
    using collect_ips_config[OF ok] by blast
  from assms(6) show ?thesis
  proof (cases rule: syncIngress_cases)
    case (reloaded c')
    with assms(5) have "c' = c" by simp
    with reloaded(3,4) ips Clean_view(2)[OF assms(1-3), of ips w] show ?thesis
      by (auto simp: OnUpdate_def Let_def isLeader_def)
  qed (use assms(5) in auto)
qed

lemma sync_cleans_as_leader_witness:
  "\<exists>n' w'. controller_syncIngress rev rev example_lib example_storer example_manager False []
       (setLeader True (example_controller\<lparr>ct_runningConfig := Some example_config\<rparr>))
       [(''WLS-ING:abc'', ''10.0.0.9'', 5), (''other'', ''10.0.0.9'', 7)] = Inr (None, n', w') \<and>
     map_of w' = [''other'' \<mapsto> (''10.0.0.9'', 7)]"
proof -
  let ?n = "setLeader True (example_controller\<lparr>ct_runningConfig := Some example_config\<rparr>)"
  let ?w = "[(''WLS-ING:abc'', ''10.0.0.9'', 5), (''other'', ''10.0.0.9'', 7)]"
  have r: "rules_ok []" by (simp add: rules_ok_def)
  obtain n' w' where run: "controller_syncIngress rev rev example_lib example_storer example_manager False [] ?n ?w = Inr (None, n', w')"
    using sync_returns[OF r range_order_rev, of rev example_lib example_storer example_manager False ?n ?w] by blast
  have g: "getConfiguration rev example_lib example_storer [] = Inr new_configuration" by code_simp
  have l: "isLeader ?n" by (simp add: isLeader_def setLeader_def)
  have ne: "\<not> Configuration_Equal (ct_runningConfig ?n) (Some new_configuration)"
    by (simp add: setLeader_def equal_simps compareServices_def cb_eq.compare_slices_iff example_config_def new_configuration_def)
  have a: "config_addresses new_configuration = {}"
    by (simp add: config_addresses_def endpoints_for_def new_configuration_def)
  from sync_cleans_as_leader[OF example_client example_literal_namespace range_order_rev range_order_rev g run] l ne a
  have "map_of w' = (\<lambda>k. if prefix (createNamespaced example_manager) k then None else map_of ?w k)" by simp
  also have "\<dots> = [''other'' \<mapsto> (''10.0.0.9'', 7)]"
    by (auto simp: fun_eq_iff createNamespaced_def namespaceSeparator_def example_manager_def)
  finally show ?thesis using run by blast
qed

text \<open>A second \<open>Stop\<close> panics. Once \<open>Stop\<close> has returned, calling it again closes the closed channel
  \<open>stopCh\<close>; and before the listener goroutine has run, \<open>Stop\<close> dereferences a nil server. Otherwise it
  returns, and has told the event loop and the queue of the status syncer to end.\<close>

lemma Stop_once:
  "(Stop_controller wq sched s ings ls n a w = Inr (n', a', w') \<longrightarrow>
      Stop_controller wq sched' s' ings' ls' n' a'' w'' = Inl CloseOfClosedChannel) \<and>
   (\<not> ct_httpListener n \<and> \<not> ct_stopCh n \<longrightarrow> Stop_controller wq sched s ings ls n a w = Inl NilDereference) \<and>
   (ct_httpListener n \<and> \<not> ct_stopCh n \<and> ct_idleConnsClosed n = Some False \<longrightarrow>
      (\<exists>n' a' w'. Stop_controller wq sched s ings ls n a w = Inr (n', a', w') \<and> ct_isShuttingDown n' \<and>
        fst a' = queue_Shutdown wq (fst a)))"
  by (auto simp: Stop_controller_def status_Shutdown_def Let_def close_channel_def close_nilable_def
      split: if_splits option.splits sum.splits)


text \<open>The callbacks in the order the elector calls them: \<open>True\<close> for gaining the lead.\<close>

fun election_callback :: "bool \<Rightarrow> leader_election \<times> controller \<Rightarrow> (leader_election \<times> controller) res" where
  "election_callback True s = Inr (OnStartedLeading s)"
| "election_callback False s = OnStoppedLeading s"

text \<open>What the callbacks keep in step: the flag, the gauge, and one open channel per lead.\<close>

definition lead_ok :: "bool \<Rightarrow> leader_election \<times> controller \<Rightarrow> bool" where
  "lead_ok b s \<longleftrightarrow> isLeader (snd s) = b \<and> le_gauge (fst s) = (if b then 1 else 0) \<and>
     (b \<longrightarrow> le_stopCh (fst s) = Some False)"

lemma election_callback_lead:
  "lead_ok b s \<Longrightarrow> \<exists>s'. election_callback (\<not> b) s = Inr s' \<and> lead_ok (\<not> b) s' \<and>
     le_statusRuns (fst s') = le_statusRuns (fst s) + (if b then 0 else 1) \<and>
     le_runs (fst s') = le_runs (fst s) + (if b then 1 else 0)"
  by (cases b) (simp_all add: lead_ok_def OnStartedLeading_def OnStoppedLeading_def isLeader_def setLeader_def
      close_nilable_def close_channel_def newLeaderCtx_def metric_OnStartedLeading_def metric_OnStoppedLeading_def Let_def)

lemma election_cycles:
  "lead_ok False s \<Longrightarrow> \<exists>s'. fold_res election_callback (concat (replicate k [True, False])) s = Inr s' \<and> lead_ok False s' \<and>
      le_statusRuns (fst s') = le_statusRuns (fst s) + k \<and> le_runs (fst s') = le_runs (fst s) + k"
proof (induction k arbitrary: s)
  case 0
  then show ?case by simp
next
  case (Suc k)
  from election_callback_lead[OF Suc.prems] obtain s1 where
    s1: "election_callback True s = Inr s1" "lead_ok True s1" "le_statusRuns (fst s1) = le_statusRuns (fst s) + 1"
    "le_runs (fst s1) = le_runs (fst s)" by auto
  from election_callback_lead[OF s1(2)] obtain s2 where
    s2: "election_callback False s1 = Inr s2" "lead_ok False s2" "le_statusRuns (fst s2) = le_statusRuns (fst s1)"
    "le_runs (fst s2) = le_runs (fst s1) + 1" by auto
  from Suc.IH[OF s2(2)] s1 s2 show ?case by auto
qed


text \<open>A session whose endpoint is a server of a rule's service survives the periodic cleaning.\<close>

lemma poll_keeps_routed:
  assumes "redis_laws (client ls) view" and "literal_namespace ls" and "range_order ord"
    and "status_poll ord ls st ings w = Inr w'"
    and "(ns, rule) \<in> set (all_rules ings)"
    and "st_GetService st (ns @ ''/'' @ ib_serviceName (first_backend rule)) = Inr svc"
    and "svc_type svc \<noteq> ServiceTypeExternalName"
    and "MetaNamespaceKey lib (svc_meta svc) = ns @ ''/'' @ ib_serviceName (first_backend rule)"
    and "e \<in> set (elems (fst (serviceEndpoints lib st (ns @ ''/'' @ ib_serviceName (first_backend rule)) port)))"
    and "view w k = Some (Address e, t)"
  shows "view w' k = Some (Address e, t)"
proof -
  from assms(4) obtain eps err where g: "getActiveEndpoints st ings = Inr (eps, err)"
    "w' = (case err of Some _ \<Rightarrow> w | None \<Rightarrow> snd (Clean ord ls eps w))"
    by (auto simp: status_poll_def split: option.splits)
  show ?thesis
  proof (cases err)
    case (Some x)
    with g(2) assms(10) show ?thesis by simp
  next
    case None
    from g(1) None active_endpoints_cover[of st "all_rules ings" "[]" eps "(ns, rule)"] assms(5) obtain ep where
      ep: "st_GetServiceEndpoints st (ns @ ''/'' @ ib_serviceName (first_backend rule)) = Inr ep"
      "\<forall>ss \<in> set (eps_subsets ep). ea_ip ` set (ss_addresses ss) \<subseteq> set eps"
      by (auto simp: getActiveEndpoints_def)
    from assms(6,7,9) obtain p where "e \<in> set (getEndpoints lib (Some svc) (Some p) ProtocolTCP (st_GetServiceEndpoints st))"
      by (auto simp: serviceEndpoints_def split: option.splits)
    then have "server_key e \<in> server_key ` set (getEndpoints lib (Some svc) (Some p) ProtocolTCP (st_GetServiceEndpoints st))"
      by simp
    then have "server_key e \<in> subset_servers p ProtocolTCP (eps_subsets ep)"
      using getEndpoints_servers[OF assms(7), of "st_GetServiceEndpoints st" lib ep p ProtocolTCP] assms(8) ep(1) by simp
    with ep(2) have "Address e \<in> set eps"
      by (fastforce simp: subset_servers_def port_servers_def server_key_def)
    with g(2) None assms(10) show ?thesis
      by (simp add: Clean_view(2)[OF assms(1-3)] redis_value_def)
  qed
qed



end
