(* ===== verification/Pipeline.thy ===== *)
theory Pipeline
  imports ControllerSync
begin

text \<open>
  The path of a change of the cluster to the proxy, as one state machine: an informer updates its
  cache and runs its handler (\<open>controller/store\<close>), the handler sends an event into the ring channel,
  the event loop of \<open>wls.go\<close> moves it to the task queue (\<open>task/queue.go\<close>), and the queue's worker
  runs \<open>syncIngress\<close> (\<open>controller.go\<close>), which hands a new configuration to the handler of requests.
  All of these run concurrently; a step of \<open>pipe_step\<close> is one of their actions.

  The definitions of the other theories are the actions. What is new here is their interleaving,
  and what is used of two more libraries: the ring channel (\<open>ring_laws\<close>) and the delivery of the
  work queue (\<open>delivery_laws\<close>). The informer of Endpoints changes its cache, which synchronisations
  read, before it calls the handler: the notifications in between are \<open>pl_epPending\<close>. (The cache of
  the Ingress informer is read by nobody: its change and the handler are one step.) The informer of
  Services has a handler without functions: its cache changes silently. A synchronisation reads the
  caches one after the other; while they change it may read any mixture of old and new, so the step
  \<open>finish\<close> determines what was read only if nothing changed since the synchronisation started.

  The result: whenever nothing is under way and no Service has changed since the last
  synchronisation started, the proxy serves exactly the Ingresses, Services and Endpoints that the
  cluster has (\<open>at_rest_serves_cluster\<close>), and the pipeline always comes to rest when the cluster does
  (\<open>pipeline_comes_to_rest\<close>). A change of a Service alone is never served
  (\<open>service_change_not_served\<close>).
\<close>

section \<open>Model\<close>

text \<open>
  The environment: the client-go caches, the work queue and the key function of the queue, the
  write operation of the ring channel, the environment of the request handler and the session
  manager.
\<close>

record ('x, 's, 'q, 'w) pipe_env =
  pe_store :: "('x, 's) store_env"
  pe_queue :: "'q workqueue"
  pe_key :: "'x k8s_object \<Rightarrow> string or_error"
  pe_push :: "'x event \<Rightarrow> 'x event list \<Rightarrow> 'x event list"
  pe_http :: handler_env
  pe_manager :: "'w manager"

text \<open>
  The state: the Ingress objects of the cluster and the store that follows them, the caches of
  Services and Endpoints, the notifications about Endpoints not yet handled, the buffered events,
  the queue with the phase of its worker, the controller and the redis world. The rest is read by
  no code: \<open>pl_changed\<close> says whether a cache with a handler has changed since the running
  synchronisation started, \<open>pl_changeTime\<close> when one changed last; \<open>pl_svcChanged\<close> says whether a
  Service has changed since the running synchronisation started, \<open>pl_svcStale\<close> whether one has since
  the last finished one started.
\<close>

record ('x, 's, 'q, 'w) pipeline =
  pl_cluster :: "string \<rightharpoonup> 'x k8s_object"
  pl_store :: "('x, 's) k8s_store"
  pl_services :: "string \<rightharpoonup> service"
  pl_endpoints :: "string \<rightharpoonup> k8s_endpoints"
  pl_epPending :: "'x informer_event list"
  pl_ring :: "'x event list"
  pl_queue :: "'q task_queue"
  pl_phase :: worker_phase
  pl_controller :: controller
  pl_world :: 'w
  pl_clock :: int
  pl_changed :: bool
  pl_changeTime :: int
  pl_svcChanged :: bool
  pl_svcStale :: bool

definition pl_storer :: "('x, 's, 'q, 'w) pipeline \<Rightarrow> storer" where
  "pl_storer s = store_storer (\<lambda>k. Inr (pl_services s k)) (\<lambda>k. Inr (pl_endpoints s k))"

definition pl_ingresses :: "('x, 's, 'q, 'w) pipe_env \<Rightarrow> ('x, 's, 'q, 'w) pipeline \<Rightarrow> ingress list" where
  "pl_ingresses pe s = ListIngresses (pe_store pe) None (pl_store s)"

text \<open>What a handler sent, and the channel after it.\<close>

definition sent :: "('x, 's) k8s_store \<Rightarrow> ('x, 's) k8s_store \<Rightarrow> 'x event list" where
  "sent st st' = drop (length (ks_updateCh st)) (ks_updateCh st')"

definition notified ::
  "('x, 's, 'q, 'w) pipe_env \<Rightarrow> ('x, 's) k8s_store \<Rightarrow> bool \<Rightarrow> int \<Rightarrow> ('x, 's, 'q, 'w) pipeline
     \<Rightarrow> ('x, 's, 'q, 'w) pipeline" where
  "notified pe st' changed now s = s\<lparr>pl_store := st', pl_ring := fold (pe_push pe) (sent (pl_store s) st') (pl_ring s),
     pl_clock := now, pl_changed := pl_changed s \<or> changed,
     pl_changeTime := if changed then now else pl_changeTime s\<rparr>"

text \<open>The Endpoints an informer may announce.\<close>

inductive ep_watch ::
  "('x, 's) store_env \<Rightarrow> (string \<rightharpoonup> k8s_endpoints) \<Rightarrow> 'x informer_event \<Rightarrow> (string \<rightharpoonup> k8s_endpoints) \<Rightarrow> bool"
  for env :: "('x, 's) store_env" where
  added: "ep_watch env eps (Added (EndpointsObject ep)) (eps(meta_key env (eps_meta ep) \<mapsto> ep))"
| updated: "meta_key env (eps_meta cep) = meta_key env (eps_meta oep) \<Longrightarrow> eps (meta_key env (eps_meta oep)) = Some oep \<Longrightarrow>
     ep_watch env eps (Updated (EndpointsObject oep) (EndpointsObject cep)) (eps(meta_key env (eps_meta oep) \<mapsto> cep))"
| deleted: "obj = EndpointsObject ep \<or> obj = DeletedFinalStateUnknown k (EndpointsObject ep) \<Longrightarrow>
     ep_watch env eps (Deleted obj) (eps(meta_key env (eps_meta ep) := None))"

text \<open>The notifications whose handler sends an event.\<close>

definition ep_announces :: "('x, 's) store_env \<Rightarrow> 'x informer_event \<Rightarrow> bool" where
  "ep_announces env e = (case e of
     Updated (EndpointsObject oep) (EndpointsObject cep) \<Rightarrow> \<not> se_deepEqualSubsets env cep oep
   | _ \<Rightarrow> True)"

text \<open>
  The steps that need no change of the cluster: the handler of Endpoints, the event loop and the
  worker.
\<close>

inductive pipe_internal ::
  "('x, 's, 'q, 'w) pipe_env \<Rightarrow> ('x, 's, 'q, 'w) pipeline \<Rightarrow> ('x, 's, 'q, 'w) pipeline \<Rightarrow> bool"
  for pe :: "('x, 's, 'q, 'w) pipe_env" where
  deliver: "pl_epPending s = e # rest \<Longrightarrow> pl_clock s \<le> now \<Longrightarrow>
     New_handler (pe_store pe) EndpointInformer e (pl_store s) = Inr st' \<Longrightarrow>
     pipe_internal pe s ((notified pe st' False now s)\<lparr>pl_epPending := rest\<rparr>)"
| loop: "pl_ring s = evt # rest \<Longrightarrow> pl_clock s \<le> now \<Longrightarrow>
     pipe_internal pe s (s\<lparr>pl_ring := rest, pl_clock := now, pl_queue :=
       event_loop_round (pe_queue pe) (pe_key pe) (pl_controller s) (UpdateCh (Some evt), now) (pl_queue s)\<rparr>)"
| take: "pl_phase s = Polling \<Longrightarrow> pl_clock s \<le> ts \<Longrightarrow>
     worker_get (pe_queue pe) ts (pl_queue s) = Some (Inr (t, ph)) \<Longrightarrow>
     pipe_internal pe s (s\<lparr>pl_queue := t, pl_phase := ph, pl_clock := ts, pl_changed := False, pl_svcChanged := False\<rparr>)"
| finish: "pl_phase s = Syncing item ts \<Longrightarrow> pl_clock s \<le> now \<Longrightarrow> range_order sord \<Longrightarrow> range_order ord \<Longrightarrow>
     (\<not> pl_changed s \<longrightarrow> \<not> pl_svcChanged s \<longrightarrow> ings = pl_ingresses pe s \<and> st = pl_storer s) \<Longrightarrow>
     controller_syncIngress sord ord (se_lib (pe_store pe)) st (pe_manager pe)
       (IsShuttingDown (pe_queue pe) (pl_queue s)) ings (pl_controller s) (pl_world s) = Inr (err, n', w') \<Longrightarrow>
     pipe_internal pe s (s\<lparr>pl_queue := worker_settle (pe_queue pe) item ts now err (pl_queue s), pl_phase := Polling,
       pl_controller := n', pl_world := w', pl_clock := now, pl_svcStale := pl_svcChanged s\<rparr>)"

text \<open>
  All steps: notifications of the four informers, changes of leadership, requests, and changes of
  redis by others. A notification about Pods changes no cache that a synchronisation reads.
\<close>

inductive pipe_step ::
  "('x, 's, 'q, 'w) pipe_env \<Rightarrow> ('x, 's, 'q, 'w) pipeline \<Rightarrow> ('x, 's, 'q, 'w) pipeline \<Rightarrow> bool"
  for pe :: "('x, 's, 'q, 'w) pipe_env" where
  ingress: "watch (pe_store pe) (pl_cluster s) e m' \<Longrightarrow> pl_clock s \<le> now \<Longrightarrow>
     New_handler (pe_store pe) IngressInformer e (pl_store s) = Inr st' \<Longrightarrow>
     pipe_step pe s ((notified pe st' (ks_cache st' \<noteq> ks_cache (pl_store s)) now s)\<lparr>pl_cluster := m'\<rparr>)"
| endpoints: "ep_watch (pe_store pe) (pl_endpoints s) e eps' \<Longrightarrow> pl_clock s \<le> now \<Longrightarrow>
     pipe_step pe s (s\<lparr>pl_endpoints := eps', pl_epPending := pl_epPending s @ [e], pl_clock := now,
       pl_changed := pl_changed s \<or> ep_announces (pe_store pe) e,
       pl_changeTime := if ep_announces (pe_store pe) e then now else pl_changeTime s\<rparr>)"
| services: "New_handler (pe_store pe) ServiceInformer e (pl_store s) = Inr st' \<Longrightarrow>
     pipe_step pe s (s\<lparr>pl_store := st', pl_services := svcs', pl_svcChanged := True, pl_svcStale := True\<rparr>)"
| pods: "pl_clock s \<le> now \<Longrightarrow> New_handler (pe_store pe) PodInformer e (pl_store s) = Inr st' \<Longrightarrow> pipe_step pe s (notified pe st' False now s)"
| lead: "pipe_step pe s (s\<lparr>pl_controller := setLeader b (pl_controller s)\<rparr>)"
| listen: "pipe_step pe s (s\<lparr>pl_controller := start_listener (pl_controller s)\<rparr>)"
| serve: "handleRootWLS (pe_http pe) (pe_manager pe) (ct_proxy (pl_controller s)) (pl_world s) r i = Inr (h', w', oc) \<Longrightarrow>
     pipe_step pe s (s\<lparr>pl_controller := (pl_controller s)\<lparr>ct_proxy := h'\<rparr>, pl_world := w'\<rparr>)"
| world: "pipe_step pe s (s\<lparr>pl_world := w'\<rparr>)"
| internal: "pipe_internal pe s s' \<Longrightarrow> pipe_step pe s s'"

text \<open>
  The start: a new controller whose queue holds the initial task, no Ingress and no Endpoints, at
  time \<open>c\<close>.
\<close>

definition pipe_start ::
  "('x, 's, 'q, 'w) pipe_env \<Rightarrow> ('x, 's) k8s_store \<Rightarrow> 'q \<Rightarrow> controller \<Rightarrow> (string \<rightharpoonup> service) \<Rightarrow>
     'x k8s_object \<Rightarrow> int \<Rightarrow> 'w \<Rightarrow> ('x, 's, 'q, 'w) pipeline" where
  "pipe_start pe st0 q0 n0 svcs initial_sync c w =
     \<lparr>pl_cluster = Map.empty, pl_store = st0, pl_services = svcs, pl_endpoints = Map.empty, pl_epPending = [], pl_ring = [],
      pl_queue = EnqueueTask (pe_queue pe) (pe_key pe) c initial_sync (NewCustomTaskQueue q0), pl_phase = Polling,
      pl_controller = n0, pl_world = w, pl_clock = c, pl_changed = False, pl_changeTime = c,
      pl_svcChanged = False, pl_svcStale = False\<rparr>"

section \<open>Documented behaviour of the libraries\<close>

text \<open>
  A write into the ring channel never blocks: when the buffer is full, the oldest values are
  discarded.
\<close>

definition ring_laws :: "('e \<Rightarrow> 'e list \<Rightarrow> 'e list) \<Rightarrow> bool" where
  "ring_laws push \<longleftrightarrow> (\<forall>e es. \<exists>k \<le> length es. push e es = drop k (es @ [e]))"

text \<open>
  The work queue delivers: \<open>items\<close> are the elements waiting, \<open>busy\<close> those taken and not yet done. A
  waiting element leaves only by \<open>Get\<close>, and \<open>Get\<close> returns when an element waits and none is busy.
\<close>

definition delivery_laws :: "'q workqueue \<Rightarrow> ('q \<Rightarrow> element set) \<Rightarrow> ('q \<Rightarrow> element set) \<Rightarrow> bool" where
  "delivery_laws wq items busy \<longleftrightarrow>
     (\<forall>e q. \<not> wq_ShuttingDown wq q \<longrightarrow> items (wq_Add wq e q) = insert e (items q)) \<and>
     (\<forall>e q. busy (wq_Add wq e q) = busy q \<and> wq_ShuttingDown wq (wq_Add wq e q) = wq_ShuttingDown wq q) \<and>
     (\<forall>e q. items (wq_Forget wq e q) = items q \<and> busy (wq_Forget wq e q) = busy q \<and>
        wq_ShuttingDown wq (wq_Forget wq e q) = wq_ShuttingDown wq q) \<and>
     (\<forall>e q. items (wq_Done wq e q) = items q \<and> busy (wq_Done wq e q) = busy q - {e} \<and>
        wq_ShuttingDown wq (wq_Done wq e q) = wq_ShuttingDown wq q) \<and>
     (\<forall>q e quit q'. wq_Get wq q = Some (e, quit, q') \<longrightarrow> (quit \<longrightarrow> wq_ShuttingDown wq q) \<and>
        (\<not> quit \<longrightarrow> e \<in> items q \<and> items q' = items q - {e} \<and> busy q' = insert e (busy q)) \<and>
        wq_ShuttingDown wq q' = wq_ShuttingDown wq q) \<and>
     (\<forall>q. items q \<noteq> {} \<and> busy q = {} \<longrightarrow> wq_Get wq q \<noteq> None) \<and> (\<forall>q. finite (items q))"

lemma delivery_lawsD:
  assumes "delivery_laws wq items busy"
  shows dl_Add: "\<not> wq_ShuttingDown wq q \<Longrightarrow> items (wq_Add wq e q) = insert e (items q)"
      "busy (wq_Add wq e q) = busy q" "wq_ShuttingDown wq (wq_Add wq e q) = wq_ShuttingDown wq q"
    and dl_Forget: "items (wq_Forget wq e q) = items q" "busy (wq_Forget wq e q) = busy q"
      "wq_ShuttingDown wq (wq_Forget wq e q) = wq_ShuttingDown wq q"
    and dl_Done: "items (wq_Done wq e q) = items q" "busy (wq_Done wq e q) = busy q - {e}"
      "wq_ShuttingDown wq (wq_Done wq e q) = wq_ShuttingDown wq q"
    and dl_progress: "items q \<noteq> {} \<Longrightarrow> busy q = {} \<Longrightarrow> wq_Get wq q \<noteq> None"
    and dl_finite: "finite (items q)"
  using assms by (simp_all add: delivery_laws_def)

lemma dl_Get:
  assumes "delivery_laws wq items busy" and "wq_Get wq q = Some (e, quit, q')"
  shows "quit \<Longrightarrow> wq_ShuttingDown wq q" and "\<not> quit \<Longrightarrow> e \<in> items q"
    and "\<not> quit \<Longrightarrow> items q' = items q - {e}" and "\<not> quit \<Longrightarrow> busy q' = insert e (busy q)"
    and "wq_ShuttingDown wq q' = wq_ShuttingDown wq q"
proof -
  from assms(1) have "\<forall>q e quit q'. wq_Get wq q = Some (e, quit, q') \<longrightarrow> (quit \<longrightarrow> wq_ShuttingDown wq q) \<and>
        (\<not> quit \<longrightarrow> e \<in> items q \<and> items q' = items q - {e} \<and> busy q' = insert e (busy q)) \<and>
        wq_ShuttingDown wq q' = wq_ShuttingDown wq q"
    unfolding delivery_laws_def by (elim conjE)
  with assms(2) show "quit \<Longrightarrow> wq_ShuttingDown wq q" and "\<not> quit \<Longrightarrow> e \<in> items q"
    and "\<not> quit \<Longrightarrow> items q' = items q - {e}" and "\<not> quit \<Longrightarrow> busy q' = insert e (busy q)"
    and "wq_ShuttingDown wq q' = wq_ShuttingDown wq q" by simp_all
qed

section \<open>Being up to date\<close>

text \<open>The running configuration is \<open>Equal\<close> to the one that the caches give now.\<close>

definition up_to_date :: "('x, 's, 'q, 'w) pipe_env \<Rightarrow> ('x, 's, 'q, 'w) pipeline \<Rightarrow> bool" where
  "up_to_date pe s \<longleftrightarrow> (\<exists>sord c. range_order sord \<and>
     getConfiguration sord (se_lib (pe_store pe)) (pl_storer s) (pl_ingresses pe s) = Inr c \<and>
     Configuration_Equal (ct_runningConfig (pl_controller s)) (Some c))"

text \<open>A notification, an event or an element of the queue that leads to another synchronisation.\<close>

definition announced ::
  "('x, 's, 'q, 'w) pipe_env \<Rightarrow> ('q \<Rightarrow> element set) \<Rightarrow> ('x, 's, 'q, 'w) pipeline \<Rightarrow> bool" where
  "announced pe items s \<longleftrightarrow> (\<exists>e \<in> set (pl_epPending s). ep_announces (pe_store pe) e) \<or> pl_ring s \<noteq> [] \<or>
     (\<exists>e \<in> items (tq_queue (pl_queue s)). pl_changeTime s \<le> el_Timestamp e)"

text \<open>
  The invariant: the last synchronisation that finished made the proxy up to date unless a cache
  changed after it started, and every such change, of Services apart, is still announced.
\<close>

definition pipe_inv ::
  "('x, 's, 'q, 'w) pipe_env \<Rightarrow> ('s \<Rightarrow> string \<rightharpoonup> ingress) \<Rightarrow> ('q \<Rightarrow> element set) \<Rightarrow> ('q \<Rightarrow> element set)
     \<Rightarrow> ('x, 's, 'q, 'w) pipeline \<Rightarrow> bool" where
  "pipe_inv pe view items busy s \<longleftrightarrow>
     mirrors (pe_store pe) view (pl_cluster s) (pl_store s) \<and>
     (\<forall>e \<in> set (pl_epPending s). \<exists>eps eps'. ep_watch (pe_store pe) eps e eps') \<and>
     controller_ok (pl_controller s) \<and> \<not> ct_isShuttingDown (pl_controller s) \<and>
     \<not> wq_ShuttingDown (pe_queue pe) (tq_queue (pl_queue s)) \<and>
     pl_changeTime s \<le> pl_clock s \<and> tq_lastSync (pl_queue s) \<le> pl_clock s \<and>
     (pl_svcChanged s \<longrightarrow> pl_svcStale s) \<and>
     (pl_changeTime s < tq_lastSync (pl_queue s) \<longrightarrow> pl_svcStale s \<or> up_to_date pe s) \<and>
     (case pl_phase s of
        Polling \<Rightarrow> busy (tq_queue (pl_queue s)) = {} \<and> (pl_svcStale s \<or> up_to_date pe s \<or> announced pe items s)
      | Syncing item ts \<Rightarrow> busy (tq_queue (pl_queue s)) = {item} \<and> ts \<le> pl_clock s \<and>
          (pl_changed s \<longrightarrow> ts \<le> pl_changeTime s \<and> announced pe items s)
      | Exited \<Rightarrow> False)"

text \<open>Only the Endpoints' subsets matter.\<close>

lemma getConfiguration_subsets:
  assumes "st_GetService st = st_GetService st'"
    and "\<And>k. map_sum id eps_subsets (st_GetServiceEndpoints st k) = map_sum id eps_subsets (st_GetServiceEndpoints st' k)"
  shows "getConfiguration sord lib st ings = getConfiguration sord lib st' ings"
proof -
  have ge: "getEndpoints lib sp pp proto (st_GetServiceEndpoints st) = getEndpoints lib sp pp proto (st_GetServiceEndpoints st')"
    for sp pp proto
  proof (cases sp)
    case (Some s)
    with assms(2)[of "MetaNamespaceKey lib (svc_meta s)"] show ?thesis
      by (auto simp: getEndpoints_def split: option.splits sum.splits)
  qed (simp add: getEndpoints_def)
  have se: "serviceEndpoints lib st = serviceEndpoints lib st'"
    unfolding serviceEndpoints_def assms(1) ge ..
  have "build_upstream lib st = build_upstream lib st'"
    unfolding build_upstream_def assms(1) se ..
  then have "upstream_of_rule lib st = upstream_of_rule lib st'"
    by (simp add: fun_eq_iff upstream_of_rule_def)
  then show ?thesis by (simp add: getConfiguration_def createUpstreams_def)
qed

text \<open>What keeps a pipeline up to date: the same caches, up to what is not read, and configuration.\<close>

lemma up_to_date_cong:
  assumes "ks_cache (pl_store s') = ks_cache (pl_store s)"
    and "\<And>k. map_option eps_subsets (pl_endpoints s' k) = map_option eps_subsets (pl_endpoints s k)"
    and "pl_services s' = pl_services s"
    and "ct_runningConfig (pl_controller s') = ct_runningConfig (pl_controller s)"
  shows "up_to_date pe s' = up_to_date pe s"
proof -
  have "getConfiguration sord lib (pl_storer s') ings = getConfiguration sord lib (pl_storer s) ings" for sord lib ings
  proof (rule getConfiguration_subsets)
    fix k
    show "map_sum id eps_subsets (st_GetServiceEndpoints (pl_storer s') k) =
        map_sum id eps_subsets (st_GetServiceEndpoints (pl_storer s) k)"
      using assms(2)[of k]
      by (cases "pl_endpoints s k"; cases "pl_endpoints s' k") (simp_all add: pl_storer_def store_storer_def ByKey_def)
  qed (simp add: assms(3) pl_storer_def store_storer_def)
  moreover have "pl_ingresses pe s' = pl_ingresses pe s"
    using assms(1) by (simp add: pl_ingresses_def ListIngresses_def)
  ultimately show ?thesis using assms(4) by (simp add: up_to_date_def)
qed

section \<open>The invariant is kept\<close>

lemma push_not_empty:
  assumes "ring_laws push"
  shows "es \<noteq> [] \<or> evs \<noteq> [] \<Longrightarrow> fold push evs es \<noteq> []"
proof (induction evs arbitrary: es)
  case (Cons ev evs)
  from assms obtain k where "k \<le> length es" "push ev es = drop k (es @ [ev])" unfolding ring_laws_def by blast
  then have "push ev es \<noteq> []" by simp
  with Cons.IH[of "push ev es"] show ?case by simp
qed simp

text \<open>
  A step that leaves the queue alone: \<open>ch\<close> says whether it changes a cache with a handler, \<open>sv\<close>
  whether it changes a Service.
\<close>

lemma change_inv:
  assumes "pipe_inv pe view items busy s"
    and frame: "pl_queue s' = pl_queue s" "pl_phase s' = pl_phase s" "pl_clock s \<le> pl_clock s'"
      "pl_changed s' = (pl_changed s \<or> ch)" "pl_changeTime s' = (if ch then pl_clock s' else pl_changeTime s)"
      "pl_svcChanged s' = (pl_svcChanged s \<or> sv)" "pl_svcStale s' = (pl_svcStale s \<or> sv)"
    and keep: "mirrors (pe_store pe) view (pl_cluster s') (pl_store s')"
      "\<forall>e \<in> set (pl_epPending s'). \<exists>eps eps'. ep_watch (pe_store pe) eps e eps'"
      "controller_ok (pl_controller s')" "ct_isShuttingDown (pl_controller s') = ct_isShuttingDown (pl_controller s)"
    and ann: "ch \<or> announced pe items s \<longrightarrow> announced pe items s'"
    and utd: "\<not> ch \<longrightarrow> \<not> sv \<longrightarrow> up_to_date pe s' = up_to_date pe s"
  shows "pipe_inv pe view items busy s'"
proof (cases "pl_phase s")
  case Polling
  with assms show ?thesis by (cases ch; cases sv) (auto simp: pipe_inv_def)
next
  case (Syncing item ts)
  with assms show ?thesis by (cases ch; cases sv) (auto simp: pipe_inv_def)
next
  case Exited
  with assms(1) show ?thesis by (simp add: pipe_inv_def)
qed

text \<open>What a handler has sent announces the change, and what was announced stays so.\<close>

lemma notified_announced:
  assumes "ring_laws (pe_push pe)" and "ch \<longrightarrow> sent (pl_store s) st' \<noteq> []"
    and "pl_ring s' = pl_ring (notified pe st' ch' now s)" and "pl_epPending s' = pl_epPending s"
    and "pl_queue s' = pl_queue s" and "\<not> ch \<longrightarrow> pl_changeTime s' = pl_changeTime s"
  shows "ch \<or> announced pe items s \<longrightarrow> announced pe items s'"
proof (cases "ch \<or> pl_ring s \<noteq> []")
  case True
  then have "pl_ring s' \<noteq> []" using push_not_empty[OF assms(1)] assms(2,3) by (auto simp: notified_def)
  then show ?thesis by (simp add: announced_def)
next
  case False
  with assms(4-6) show ?thesis by (auto simp: announced_def)
qed

text \<open>The laws that the libraries in the environment keep, and that every object has a key.\<close>

definition pipe_laws ::
  "('x, 's, 'q, 'w) pipe_env \<Rightarrow> ('s \<Rightarrow> string \<rightharpoonup> ingress) \<Rightarrow> ('q \<Rightarrow> element set) \<Rightarrow> ('q \<Rightarrow> element set) \<Rightarrow> bool" where
  "pipe_laws pe view items busy \<longleftrightarrow>
     cache_laws (pe_store pe) view \<and> (\<forall>a b. se_deepEqual (pe_store pe) a b \<longrightarrow> a = b) \<and>
     (\<forall>a b. se_deepEqualSubsets (pe_store pe) a b \<longrightarrow> eps_subsets a = eps_subsets b) \<and>
     delivery_laws (pe_queue pe) items busy \<and> ring_laws (pe_push pe) \<and> (\<forall>obj. \<exists>key. pe_key pe obj = Inr key)"

lemma pipe_lawsD:
  assumes "pipe_laws pe view items busy"
  shows pl_cache: "cache_laws (pe_store pe) view"
    and pl_deep: "se_deepEqual (pe_store pe) a b \<Longrightarrow> a = b"
    and pl_deepSubsets: "se_deepEqualSubsets (pe_store pe) x y \<Longrightarrow> eps_subsets x = eps_subsets y"
    and pl_delivery: "delivery_laws (pe_queue pe) items busy" and pl_ring_laws: "ring_laws (pe_push pe)"
    and pl_key: "\<exists>key. pe_key pe obj = Inr key"
  using assms by (simp_all add: pipe_laws_def)

lemma loop_inv:
  assumes "pipe_laws pe view items busy" and "pipe_inv pe view items busy s"
    and "pl_ring s = evt # rest" and "pl_clock s \<le> now"
  shows "pipe_inv pe view items busy (s\<lparr>pl_ring := rest, pl_clock := now, pl_queue :=
       event_loop_round (pe_queue pe) (pe_key pe) (pl_controller s) (UpdateCh (Some evt), now) (pl_queue s)\<rparr>)"
    (is "pipe_inv _ _ _ _ ?s'")
proof -
  note dl = pl_delivery[OF assms(1)]
  obtain key where "pe_key pe (ev_Obj evt) = Inr key" using pl_key[OF assms(1)] by blast
  moreover let ?e = "\<lparr>el_Key = key, el_Timestamp = now, el_IsSkippable = False\<rparr>"
  have up: "\<not> wq_ShuttingDown (pe_queue pe) (tq_queue (pl_queue s))" "\<not> ct_isShuttingDown (pl_controller s)"
    using assms(2) by (simp_all add: pipe_inv_def)
  ultimately have q: "pl_queue ?s' = (pl_queue s)\<lparr>tq_queue := wq_Add (pe_queue pe) ?e (tq_queue (pl_queue s))\<rparr>"
    by (simp add: event_loop_round_def EnqueueSkippableTask_def enqueue_def IsShuttingDown_def Let_def)
  have "?e \<in> items (tq_queue (pl_queue ?s'))" by (simp only: q) (simp add: dl_Add[OF dl] up)
  moreover have "pl_changeTime s \<le> now" using assms(2,4) by (simp add: pipe_inv_def)
  ultimately have "announced pe items ?s'" by (force simp: announced_def)
  moreover have "up_to_date pe ?s' = up_to_date pe s" by (rule up_to_date_cong) simp_all
  ultimately show ?thesis
    using assms(2,4) unfolding pipe_inv_def q
    by (auto simp: dl_Add[OF dl] split: worker_phase.splits)
qed

lemma take_inv:
  assumes "pipe_laws pe view items busy" and "pipe_inv pe view items busy s"
    and "pl_phase s = Polling" and "pl_clock s \<le> ts"
    and "worker_get (pe_queue pe) ts (pl_queue s) = Some (Inr (t, ph))"
  shows "pipe_inv pe view items busy
     (s\<lparr>pl_queue := t, pl_phase := ph, pl_clock := ts, pl_changed := False, pl_svcChanged := False\<rparr>)"
    (is "pipe_inv _ _ _ _ ?s'")
proof -
  note dl = pl_delivery[OF assms(1)]
  have utd: "up_to_date pe ?s' = up_to_date pe s" by (rule up_to_date_cong) simp_all
  have inv: "busy (tq_queue (pl_queue s)) = {}" "pl_svcStale s \<or> up_to_date pe s \<or> announced pe items s"
    "pl_changeTime s < tq_lastSync (pl_queue s) \<longrightarrow> pl_svcStale s \<or> up_to_date pe s"
    "\<not> wq_ShuttingDown (pe_queue pe) (tq_queue (pl_queue s))"
    using assms(2,3) by (simp_all add: pipe_inv_def)
  from assms(5) show ?thesis
  proof (cases rule: worker_get_Some)
    case (exit item q)
    with dl_Get(1)[OF dl exit(1)] inv(4) show ?thesis by simp
  next
    case (skip item q)
    note g = dl_Get(2-5)[OF dl skip(1)]
    have "pl_svcStale s \<or> up_to_date pe s \<or> announced pe items ?s'"
    proof (cases "pl_svcStale s \<or> up_to_date pe s")
      case False
      with inv(3) skip(3) have "\<not> pl_changeTime s \<le> el_Timestamp item" by linarith
      with False inv(2) g(2) skip(4) show ?thesis
        by (auto simp: announced_def dl_Done[OF dl] dl_Forget[OF dl])
    qed blast
    moreover have "busy (tq_queue t) = {}" using skip(4) inv(1) g(3) by (simp add: dl_Done[OF dl] dl_Forget[OF dl])
    ultimately show ?thesis
      using assms(2,4) g(4) skip(2,4) utd by (auto simp: pipe_inv_def dl_Done[OF dl] dl_Forget[OF dl])
  next
    case (sync item q)
    note g = dl_Get(2-5)[OF dl sync(1)]
    show ?thesis using assms(2,4) g(3,4) sync(2,4) utd inv(1) by (auto simp: pipe_inv_def)
  qed
qed

lemma syncIngress_err_None:
  assumes "controller_syncIngress sord ord lib st ls sd ings n w = Inr (err, n', w')"
  shows "err = None \<and> ct_isShuttingDown n' = ct_isShuttingDown n"
  using assms
proof (cases rule: syncIngress_cases)
  case (reloaded c)
  with OnUpdate_result(1,2)[OF reloaded(4)] show ?thesis by simp
qed simp_all

lemma finish_inv:
  assumes "pipe_laws pe view items busy" and "pipe_inv pe view items busy s"
    and "pl_phase s = Syncing item ts" and "pl_clock s \<le> now" and "range_order sord"
    and "\<not> pl_changed s \<longrightarrow> \<not> pl_svcChanged s \<longrightarrow> ings = pl_ingresses pe s \<and> st = pl_storer s"
    and "controller_syncIngress sord ord (se_lib (pe_store pe)) st (pe_manager pe)
       (IsShuttingDown (pe_queue pe) (pl_queue s)) ings (pl_controller s) (pl_world s) = Inr (err, n', w')"
  shows "pipe_inv pe view items busy (s\<lparr>pl_queue := worker_settle (pe_queue pe) item ts now err (pl_queue s),
       pl_phase := Polling, pl_controller := n', pl_world := w', pl_clock := now, pl_svcStale := pl_svcChanged s\<rparr>)"
    (is "pipe_inv _ _ _ _ ?s'")
proof -
  note dl = pl_delivery[OF assms(1)]
  have inv: "controller_ok (pl_controller s)" "\<not> IsShuttingDown (pe_queue pe) (pl_queue s)"
    "busy (tq_queue (pl_queue s)) = {item}" "ts \<le> pl_clock s"
    "pl_changed s \<longrightarrow> ts \<le> pl_changeTime s \<and> announced pe items s"
    using assms(2,3) by (simp_all add: pipe_inv_def IsShuttingDown_def)
  note err = conjunct1[OF syncIngress_err_None[OF assms(7)]] conjunct2[OF syncIngress_err_None[OF assms(7)]]
  have run: "controller_syncIngress sord ord (se_lib (pe_store pe)) st (pe_manager pe) False ings
      (pl_controller s) (pl_world s) = Inr (err, n', w')" using assms(7) inv(2) by simp
  define u where "u = ?s'"
  have f: "pl_phase u = Polling" "pl_controller u = n'" "pl_clock u = now" "pl_svcStale u = pl_svcChanged s"
    "pl_svcChanged u = pl_svcChanged s" "pl_changeTime u = pl_changeTime s" "pl_cluster u = pl_cluster s"
    "pl_store u = pl_store s" "pl_epPending u = pl_epPending s" "pl_ring u = pl_ring s"
    "pl_storer u = pl_storer s" "pl_ingresses pe u = pl_ingresses pe s"
    by (simp_all add: u_def pl_storer_def pl_ingresses_def)
  have q: "tq_queue (pl_queue u) = wq_Done (pe_queue pe) item (wq_Forget (pe_queue pe) item (tq_queue (pl_queue s)))"
    "tq_lastSync (pl_queue u) = ts" by (simp_all add: u_def err(1))
  have utd: "\<not> pl_changed s \<longrightarrow> \<not> pl_svcChanged s \<longrightarrow> up_to_date pe u"
  proof (intro impI)
    assume that: "\<not> pl_changed s" "\<not> pl_svcChanged s"
    from sync_serves_generated[OF assms(5) run inv(1)] obtain c where
      "getConfiguration sord (se_lib (pe_store pe)) st ings = Inr c"
      "Configuration_Equal (ct_runningConfig n') (Some c)" by metis
    with that assms(5,6) show "up_to_date pe u" unfolding up_to_date_def f by blast
  qed
  have "announced pe items s \<longrightarrow> announced pe items u"
    unfolding announced_def q f by (simp add: dl_Done[OF dl] dl_Forget[OF dl])
  with utd show ?thesis
    using assms(2,4) inv controller_ok_sync[OF assms(5,7) inv(1)] err(2)
    unfolding u_def[symmetric] pipe_inv_def q f by (auto simp: dl_Done[OF dl] dl_Forget[OF dl])
qed

lemma deliver_inv:
  assumes laws: "pipe_laws pe view items busy" and inv: "pipe_inv pe view items busy s"
    and "pl_epPending s = e # rest" and "pl_clock s \<le> now"
    and run: "epEventHandler (pe_store pe) e (pl_store s) = Inr st'"
  shows "pipe_inv pe view items busy ((notified pe st' False now s)\<lparr>pl_epPending := rest\<rparr>)"
    (is "pipe_inv _ _ _ _ ?s'")
proof (rule change_inv[OF inv, where ch = False and sv = False])
  have cache: "ks_cache st' = ks_cache (pl_store s)" by (rule other_handlers_announce(1)[OF run])
  then show "mirrors (pe_store pe) view (pl_cluster ?s') (pl_store ?s')"
    using inv by (simp add: pipe_inv_def mirrors_def notified_def)
  show "\<not> False \<longrightarrow> \<not> False \<longrightarrow> up_to_date pe ?s' = up_to_date pe s"
    by (intro impI up_to_date_cong) (simp_all add: notified_def cache)
  obtain eps eps' where "ep_watch (pe_store pe) eps e eps'"
    using inv assms(3) unfolding pipe_inv_def by auto
  then have "ep_announces (pe_store pe) e \<longrightarrow> sent (pl_store s) st' \<noteq> []"
    using run by cases (auto simp: ep_announces_def sent_def send_def split: if_splits)
  then show "False \<or> announced pe items s \<longrightarrow> announced pe items ?s'"
    using push_not_empty[OF pl_ring_laws[OF laws]] assms(3) by (auto simp: announced_def notified_def)
qed (use inv assms(3,4) in \<open>simp_all add: notified_def pipe_inv_def\<close>)

lemma pipe_internal_inv:
  assumes "pipe_laws pe view items busy" and "pipe_internal pe s s'" and "pipe_inv pe view items busy s"
  shows "pipe_inv pe view items busy s'"
  using assms(2)
proof cases
  case (deliver e rest now st')
  show ?thesis unfolding deliver(1) by (rule deliver_inv[OF assms(1,3) deliver(2,3) deliver(4)[unfolded New_handler.simps]])
next
  case (loop evt rest now)
  with loop_inv[OF assms(1,3)] show ?thesis by simp
next
  case (take ts t ph)
  with take_inv[OF assms(1,3)] show ?thesis by simp
next
  case (finish item ts now sord ord ings st err n' w')
  show ?thesis unfolding finish(1) by (rule finish_inv[OF assms(1,3) finish(2,3,4,6,7)])
qed

lemma ingress_inv:
  assumes laws: "pipe_laws pe view items busy" and inv: "pipe_inv pe view items busy s"
    and "watch (pe_store pe) (pl_cluster s) e m'" and "pl_clock s \<le> now"
    and "ingEventHandler (pe_store pe) e (pl_store s) = Inr st'"
  shows "pipe_inv pe view items busy ((notified pe st' (ks_cache st' \<noteq> ks_cache (pl_store s)) now s)\<lparr>pl_cluster := m'\<rparr>)"
    (is "pipe_inv _ _ _ _ ?s'")
proof (rule change_inv[OF inv, where ch = "ks_cache st' \<noteq> ks_cache (pl_store s)" and sv = False])
  let ?c = "ks_cache st' \<noteq> ks_cache (pl_store s)"
  have "mirrors (pe_store pe) view (pl_cluster s) (pl_store s)" using inv by (simp add: pipe_inv_def)
  from ingEventHandler_mirrors[OF pl_cache[OF laws] pl_deep[OF laws] assms(3) this] assms(5)
  show "mirrors (pe_store pe) view (pl_cluster ?s') (pl_store ?s')" by (auto simp: notified_def)
  have "?c \<longrightarrow> sent (pl_store s) st' \<noteq> []"
    using ingEventHandler_announces[OF assms(5)] by (auto simp: sent_def)
  then show "?c \<or> announced pe items s \<longrightarrow> announced pe items ?s'"
    using assms(3) by (intro notified_announced[OF pl_ring_laws[OF laws]]) (simp_all add: notified_def)
  show "\<not> ?c \<longrightarrow> \<not> False \<longrightarrow> up_to_date pe ?s' = up_to_date pe s"
    by (intro impI up_to_date_cong) (simp_all add: notified_def)
qed (use inv assms(4) in \<open>simp_all add: notified_def pipe_inv_def\<close>)

lemma endpoints_inv:
  assumes laws: "pipe_laws pe view items busy" and inv: "pipe_inv pe view items busy s"
    and w: "ep_watch (pe_store pe) (pl_endpoints s) e eps'" and "pl_clock s \<le> now"
  shows "pipe_inv pe view items busy (s\<lparr>pl_endpoints := eps', pl_epPending := pl_epPending s @ [e], pl_clock := now,
       pl_changed := pl_changed s \<or> ep_announces (pe_store pe) e,
       pl_changeTime := if ep_announces (pe_store pe) e then now else pl_changeTime s\<rparr>)"
    (is "pipe_inv _ _ _ _ ?s'")
proof (rule change_inv[OF inv, where ch = "ep_announces (pe_store pe) e" and sv = False])
  have "up_to_date pe ?s' = up_to_date pe s" if "\<not> ep_announces (pe_store pe) e"
  proof (rule up_to_date_cong)
    fix k
    from w that show
      "map_option eps_subsets (pl_endpoints ?s' k) = map_option eps_subsets (pl_endpoints s k)"
      by cases (auto simp: ep_announces_def pl_deepSubsets[OF laws])
  qed simp_all
  then show "\<not> ep_announces (pe_store pe) e \<longrightarrow> \<not> False \<longrightarrow> up_to_date pe ?s' = up_to_date pe s" by blast
  show "ep_announces (pe_store pe) e \<or> announced pe items s \<longrightarrow> announced pe items ?s'"
    using inv assms(4) by (auto simp: announced_def pipe_inv_def)
  show "\<forall>e \<in> set (pl_epPending ?s'). \<exists>eps eps'. ep_watch (pe_store pe) eps e eps'"
    using inv w by (auto simp: pipe_inv_def)
qed (use inv assms(4) in \<open>simp_all add: pipe_inv_def\<close>)

lemma services_inv:
  assumes inv: "pipe_inv pe view items busy s"
  shows "pipe_inv pe view items busy (s\<lparr>pl_store := pl_store s, pl_services := svcs', pl_svcChanged := True, pl_svcStale := True\<rparr>)"
  by (rule change_inv[OF inv, where ch = False and sv = True])
    (use inv in \<open>simp_all add: pipe_inv_def announced_def\<close>)

lemma pods_inv:
  assumes laws: "pipe_laws pe view items busy" and inv: "pipe_inv pe view items busy s"
    and "pl_clock s \<le> now" and "podEventHandler e (pl_store s) = Inr st'"
  shows "pipe_inv pe view items busy (notified pe st' False now s)" (is "pipe_inv _ _ _ _ ?s'")
proof (rule change_inv[OF inv, where ch = False and sv = False])
  have cache: "ks_cache st' = ks_cache (pl_store s)" by (rule other_handlers_announce(3)[OF assms(4)])
  then show "mirrors (pe_store pe) view (pl_cluster ?s') (pl_store ?s')"
    using inv by (simp add: pipe_inv_def mirrors_def notified_def)
  show "\<not> False \<longrightarrow> \<not> False \<longrightarrow> up_to_date pe ?s' = up_to_date pe s"
    by (intro impI up_to_date_cong) (simp_all add: notified_def cache)
  show "False \<or> announced pe items s \<longrightarrow> announced pe items ?s'"
    by (intro notified_announced[OF pl_ring_laws[OF laws]]) (simp_all add: notified_def)
qed (use inv assms(3) in \<open>simp_all add: notified_def pipe_inv_def\<close>)

text \<open>Steps of the controller that keep its configuration.\<close>

lemma controller_inv:
  assumes inv: "pipe_inv pe view items busy s" and "controller_ok n"
    and "ct_runningConfig n = ct_runningConfig (pl_controller s)"
    and "ct_isShuttingDown n = ct_isShuttingDown (pl_controller s)"
  shows "pipe_inv pe view items busy (s\<lparr>pl_controller := n, pl_world := w\<rparr>)" (is "pipe_inv _ _ _ _ ?s'")
proof (rule change_inv[OF inv, where ch = False and sv = False])
  show "\<not> False \<longrightarrow> \<not> False \<longrightarrow> up_to_date pe ?s' = up_to_date pe s"
    by (intro impI up_to_date_cong) (simp_all add: assms(3))
qed (use assms in \<open>simp_all add: pipe_inv_def announced_def\<close>)

lemma pipe_step_inv:
  assumes laws: "pipe_laws pe view items busy" and "pipe_step pe s s'" and inv: "pipe_inv pe view items busy s"
  shows "pipe_inv pe view items busy s'"
proof -
  have ok: "controller_ok (pl_controller s)" using inv by (simp add: pipe_inv_def)
  note keep = controller_inv[OF inv, of _ "pl_world s", simplified]
  from assms(2) show ?thesis
  proof cases
    case (ingress e m' now st')
    then show ?thesis using ingress_inv[OF laws inv] by simp
  next
    case (endpoints e eps' now)
    then show ?thesis using endpoints_inv[OF laws inv] by simp
  next
    case (services e st' svcs')
    then show ?thesis using services_inv[OF inv] by simp
  next
    case (pods now e st')
    then show ?thesis using pods_inv[OF laws inv] by simp
  next
    case (lead b)
    then show ?thesis using ok keep[of "setLeader b (pl_controller s)"] by (simp add: setLeader_def controller_ok_def)
  next
    case listen
    then show ?thesis
      using ok keep[of "start_listener (pl_controller s)"] by (simp add: start_listener_def controller_ok_def)
  next
    case (serve r i h' w' oc)
    with ok handleRootWLS_inv[OF serve(2)] show ?thesis
      by (auto simp: controller_ok_def intro: controller_inv[OF inv])
  next
    case (world w')
    then show ?thesis using controller_inv[OF inv ok, of w'] by simp
  next
    case internal
    show ?thesis by (rule pipe_internal_inv[OF laws internal inv])
  qed
qed

lemma pipe_start_inv:
  assumes "pipe_laws pe view items busy" and "NewWLSController cfg cl pod = Inr (n0, mc, ss)"
    and "view (ks_cache st0) = Map.empty" and "busy q0 = {}" and "\<not> wq_ShuttingDown (pe_queue pe) q0" and "0 \<le> c"
  shows "pipe_inv pe view items busy (pipe_start pe st0 q0 n0 svcs initial_sync c w)" (is "pipe_inv _ _ _ _ ?s")
proof -
  note dl = pl_delivery[OF assms(1)]
  obtain key where key: "pe_key pe initial_sync = Inr key" using pl_key[OF assms(1)] by blast
  let ?e = "\<lparr>el_Key = key, el_Timestamp = c + day, el_IsSkippable = False\<rparr>"
  have q: "pl_queue ?s = (NewCustomTaskQueue q0)\<lparr>tq_queue := wq_Add (pe_queue pe) ?e q0\<rparr>"
    using key assms(5)
    by (simp add: pipe_start_def EnqueueTask_def enqueue_def IsShuttingDown_def NewCustomTaskQueue_def Let_def)
  have "?e \<in> items (tq_queue (pl_queue ?s))" by (simp add: q dl_Add[OF dl] assms(5))
  then have "announced pe items ?s" unfolding announced_def by (intro disjI2 bexI) (simp_all add: pipe_start_def day_def)
  moreover have "mirrors (pe_store pe) view Map.empty st0" using assms(3) by (simp add: mirrors_def fun_eq_iff)
  moreover have "\<not> ct_isShuttingDown n0" using assms(2) by (auto simp: NewWLSController_def Let_def split: sum.splits)
  ultimately show ?thesis
    using controller_ok_new[OF assms(2)] assms(4,5,6) unfolding pipe_inv_def q
    by (simp add: dl_Add[OF dl] NewCustomTaskQueue_def) (simp add: pipe_start_def dl_Add[OF dl])
qed

interpretation pipe: invariant_steps "pipe_step pe" "\<lambda>s. pipe_laws pe view items busy \<and> pipe_inv pe view items busy s"
  for pe view items busy
  by unfold_locales (auto intro: pipe_step_inv)

lemma pipe_reach_inv:
  assumes "pipe_laws pe view items busy" and "(pipe_step pe)\<^sup>*\<^sup>* s s'" and "pipe_inv pe view items busy s"
  shows "pipe_inv pe view items busy s'"
  using pipe.reach_inv[OF assms(2)] assms(1,3) by blast

section \<open>Coming to rest\<close>

definition at_rest :: "('q \<Rightarrow> element set) \<Rightarrow> ('x, 's, 'q, 'w) pipeline \<Rightarrow> bool" where
  "at_rest items s \<longleftrightarrow>
     pl_epPending s = [] \<and> pl_ring s = [] \<and> items (tq_queue (pl_queue s)) = {} \<and> pl_phase s = Polling"

text \<open>
  What is left to do: a notification takes at most four steps, an event three, an element of the
  queue two.
\<close>

definition pending :: "('q \<Rightarrow> element set) \<Rightarrow> ('x, 's, 'q, 'w) pipeline \<Rightarrow> nat" where
  "pending items s = 4 * length (pl_epPending s) + 3 * length (pl_ring s) + 2 * card (items (tq_queue (pl_queue s))) +
     (case pl_phase s of Syncing _ _ \<Rightarrow> 1 | _ \<Rightarrow> 0)"

lemma internal_frame:
  assumes "pipe_internal pe s s'"
  shows "pl_cluster s' = pl_cluster s \<and> ks_cache (pl_store s') = ks_cache (pl_store s) \<and>
     pl_endpoints s' = pl_endpoints s \<and> pl_services s' = pl_services s \<and> pl_ingresses pe s' = pl_ingresses pe s"
  using assms
proof cases
  case (deliver e rest now st')
  with other_handlers_announce(1)[OF deliver(4)[unfolded New_handler.simps]] show ?thesis
    by (simp add: notified_def pl_ingresses_def ListIngresses_def)
qed (simp_all add: pl_ingresses_def)

lemma push_length:
  assumes "ring_laws push"
  shows "length (fold push evs es) \<le> length es + length evs"
proof (induction evs arbitrary: es)
  case (Cons ev evs)
  from assms obtain k where "push ev es = drop k (es @ [ev])" unfolding ring_laws_def by blast
  with Cons.IH[of "push ev es"] show ?case by simp
qed simp

lemma epEventHandler_sends:
  assumes "epEventHandler env e st = Inr st'"
  shows "length (sent st st') \<le> 1"
  using assms by (cases "(env, e, st)" rule: epEventHandler.cases) (auto simp: sent_def send_def split: if_splits)

lemma internal_decreases:
  assumes "pipe_laws pe view items busy" and "pipe_inv pe view items busy s" and "pipe_internal pe s s'"
  shows "pending items s' < pending items s"
proof -
  note dl = pl_delivery[OF assms(1)]
  let ?q = "tq_queue (pl_queue s)"
  have up: "\<not> wq_ShuttingDown (pe_queue pe) ?q" "\<not> ct_isShuttingDown (pl_controller s)"
    using assms(2) by (simp_all add: pipe_inv_def)
  have less: "card (items ?q - {e}) < card (items ?q)" if "e \<in> items ?q" for e
    using that dl_finite[OF dl] by (rule card_Diff1_less[rotated])
  from assms(3) show ?thesis
  proof cases
    case (deliver e rest now st')
    have "length (pl_ring s') \<le> Suc (length (pl_ring s))"
      using push_length[OF pl_ring_laws[OF assms(1)], of "sent (pl_store s) st'" "pl_ring s"]
        epEventHandler_sends[OF deliver(4)[unfolded New_handler.simps]] by (simp add: deliver(1) notified_def)
    with deliver(1,2) show ?thesis by (simp add: pending_def notified_def)
  next
    case (loop evt rest now)
    obtain key where "pe_key pe (ev_Obj evt) = Inr key" using pl_key[OF assms(1)] by blast
    then have "items (tq_queue (pl_queue s')) = insert \<lparr>el_Key = key, el_Timestamp = now, el_IsSkippable = False\<rparr> (items ?q)"
      using up by (simp add: loop(1) event_loop_round_def EnqueueSkippableTask_def enqueue_def IsShuttingDown_def
          Let_def dl_Add[OF dl])
    then have "card (items (tq_queue (pl_queue s'))) \<le> Suc (card (items ?q))"
      using dl_finite[OF dl] by (simp add: card_insert_if)
    with loop(2) show ?thesis by (simp add: pending_def loop(1))
  next
    case (take ts t ph)
    from take(4) show ?thesis
    proof (cases rule: worker_get_Some)
      case (exit item q)
      with dl_Get(1)[OF dl exit(1)] up(1) show ?thesis by simp
    next
      case (skip item q)
      with dl_Get(3)[OF dl skip(1)] less[OF dl_Get(2)[OF dl skip(1)]] take show ?thesis
        by (simp add: pending_def dl_Done[OF dl] dl_Forget[OF dl])
    next
      case (sync item q)
      with dl_Get(3)[OF dl sync(1)] less[OF dl_Get(2)[OF dl sync(1)]] take show ?thesis
        by (simp add: pending_def)
    qed
  next
    case (finish item ts now sord ord ings st err n' w')
    with syncIngress_err_None[OF finish(7)] show ?thesis
      by (simp add: pending_def dl_Done[OF dl] dl_Forget[OF dl])
  qed
qed

lemma internal_progress:
  assumes "pipe_laws pe view items busy" and "pipe_inv pe view items busy s"
    and "rules_ok (pl_ingresses pe s)" and "\<not> at_rest items s"
  shows "\<exists>s'. pipe_internal pe s s'"
proof -
  consider e rest where "pl_epPending s = e # rest" | evt rest where "pl_ring s = evt # rest"
    | "pl_epPending s = []" "pl_ring s = []" by (cases "pl_epPending s"; cases "pl_ring s") auto
  then show ?thesis
  proof cases
    case (1 e rest)
    then obtain eps eps' where "ep_watch (pe_store pe) eps e eps'" using assms(2) by (auto simp: pipe_inv_def)
    then have "\<exists>st'. New_handler (pe_store pe) EndpointInformer e (pl_store s) = Inr st'" by cases simp_all
    then show ?thesis using pipe_internal.deliver[OF 1 order.refl] by blast
  next
    case (2 evt rest)
    then show ?thesis using pipe_internal.loop[of s evt rest "pl_clock s" pe] by blast
  next
    case Nil: 3
    note dl = pl_delivery[OF assms(1)]
    show ?thesis
    proof (cases "pl_phase s")
      case Polling
      with assms(2) have up: "busy (tq_queue (pl_queue s)) = {}"
        "\<not> wq_ShuttingDown (pe_queue pe) (tq_queue (pl_queue s))" by (simp_all add: pipe_inv_def)
      have "items (tq_queue (pl_queue s)) \<noteq> {}" using assms(4) Nil Polling by (simp add: at_rest_def)
      from dl_progress[OF dl this up(1)] obtain e quit q where
        g: "wq_Get (pe_queue pe) (tq_queue (pl_queue s)) = Some (e, quit, q)" by auto
      have "\<not> quit" using dl_Get(1)[OF dl g] up(2) by blast
      with g obtain t ph where "worker_get (pe_queue pe) (pl_clock s) (pl_queue s) = Some (Inr (t, ph))"
        unfolding worker_get_def worker_item_def by (cases "el_Timestamp e < tq_lastSync (pl_queue s)") auto
      then show ?thesis using pipe_internal.take[OF Polling order.refl] by blast
    next
      case (Syncing item ts)
      obtain n' w' where "controller_syncIngress (\<lambda>x. x) (\<lambda>x. x) (se_lib (pe_store pe)) (pl_storer s) (pe_manager pe)
          (IsShuttingDown (pe_queue pe) (pl_queue s)) (pl_ingresses pe s) (pl_controller s) (pl_world s) = Inr (None, n', w')"
        using sync_returns[OF assms(3) range_order_id, of "\<lambda>x. x" "se_lib (pe_store pe)" "pl_storer s" "pe_manager pe"
            "IsShuttingDown (pe_queue pe) (pl_queue s)" "pl_controller s" "pl_world s"] by blast
      from pipe_internal.finish[OF Syncing order.refl range_order_id range_order_id _ this] show ?thesis by blast
    next
      case Exited
      with assms(2) show ?thesis by (simp add: pipe_inv_def)
    qed
  qed
qed

interpretation pipe_run: terminating_steps "pipe_internal pe"
  "\<lambda>s. pipe_laws pe view items busy \<and> pipe_inv pe view items busy s" "pending items"
  for pe view items busy
  by unfold_locales (auto intro: pipe_internal_inv internal_decreases)

lemma internal_reach:
  assumes "pipe_laws pe view items busy" and "(pipe_internal pe)\<^sup>*\<^sup>* s s'" and "pipe_inv pe view items busy s"
  shows "pipe_inv pe view items busy s'" and "pl_cluster s' = pl_cluster s" and "pl_endpoints s' = pl_endpoints s"
    and "pl_services s' = pl_services s" and "pl_ingresses pe s' = pl_ingresses pe s"
proof -
  have i: "pipe_laws pe view items busy \<and> pipe_inv pe view items busy s" using assms(1,3) by blast
  show "pipe_inv pe view items busy s'" using pipe_run.reach_inv[OF assms(2) i] by blast
  note keeps = pipe_run.reach_keeps[OF assms(2) i]
  show "pl_cluster s' = pl_cluster s" by (rule keeps) (simp add: internal_frame)
  show "pl_endpoints s' = pl_endpoints s" by (rule keeps) (simp add: internal_frame)
  show "pl_services s' = pl_services s" by (rule keeps) (simp add: internal_frame)
  show "pl_ingresses pe s' = pl_ingresses pe s" by (rule keeps) (simp add: internal_frame)
qed

interpretation pipe_svc: invariant_steps "pipe_internal pe" "\<lambda>s. \<not> pl_svcChanged s \<and> \<not> pl_svcStale s"
  for pe
  by unfold_locales (auto elim!: pipe_internal.cases simp: notified_def)

lemma at_rest_stuck:
  assumes "pipe_laws pe view items busy" and "pipe_inv pe view items busy s" and "at_rest items s"
  shows "\<not> (\<exists>s'. pipe_internal pe s s')"
  using internal_decreases[OF assms(1,2)] assms(3) by (auto simp: at_rest_def pending_def)

lemma stuck_at_rest:
  assumes "pipe_laws pe view items busy" and "pipe_inv pe view items busy s" and "rules_ok (pl_ingresses pe s)"
    and "(pipe_internal pe)\<^sup>*\<^sup>* s s'" and "\<not> (\<exists>s''. pipe_internal pe s' s'')"
  shows "at_rest items s'"
  using internal_reach(1,5)[OF assms(1,4,2)] internal_progress[OF assms(1)] assms(3,5) by metis

lemma drains:
  assumes "pipe_laws pe view items busy" and "pipe_inv pe view items busy s" and "rules_ok (pl_ingresses pe s)"
  shows "\<exists>s'. (pipe_internal pe)\<^sup>*\<^sup>* s s' \<and> at_rest items s'"
  using pipe_run.stops[of pe view items busy s] stuck_at_rest[OF assms] assms by blast

section \<open>Properties\<close>

lemma at_rest_up_to_date:
  assumes "pipe_inv pe view items busy s" and "at_rest items s" and "\<not> pl_svcStale s"
  shows "up_to_date pe s"
  using assms by (simp add: pipe_inv_def at_rest_def announced_def)

lemma up_to_date_serves:
  assumes "controller_ok (pl_controller s)" and "up_to_date pe s"
    and "unambiguous (se_lib (pe_store pe)) (pl_ingresses pe s)"
  shows "serves_rules (se_lib (pe_store pe)) (pl_storer s) (pl_ingresses pe s) (ct_proxy (pl_controller s))"
proof -
  from assms(2) obtain sord c where c: "range_order sord"
    "getConfiguration sord (se_lib (pe_store pe)) (pl_storer s) (pl_ingresses pe s) = Inr c"
    "Configuration_Equal (ct_runningConfig (pl_controller s)) (Some c)" unfolding up_to_date_def by blast
  from assms(1) obtain r where r: "ct_runningConfig (pl_controller s) = Some r"
    "targetConfig (ct_proxy (pl_controller s)) = Some r" "config_ok r" by (auto simp: controller_ok_def)
  note ok = getConfiguration_rules_ok[OF c(2)]
  from serves_generated[OF ok assms(3) c(1,2) generated_config(1)[OF ok c(1,2)] r(3,2)] c(3) r(1)
  show ?thesis by simp
qed


text \<open>C10: the pipeline comes to rest. From every reachable state whose rules all have a path, the event
  loop and the worker cannot run forever without a further notification, and they stop only at
  rest, with the caches as they were.\<close>

theorem pipeline_comes_to_rest:
  assumes "pipe_laws pe view items busy" and "NewWLSController cfg cl pod = Inr (n0, mc, ss)"
    and "view (ks_cache st0) = Map.empty" and "busy q0 = {}" and "\<not> wq_ShuttingDown (pe_queue pe) q0" and "0 \<le> c"
    and "(pipe_step pe)\<^sup>*\<^sup>* (pipe_start pe st0 q0 n0 svcs initial_sync c w) s" and "rules_ok (pl_ingresses pe s)"
  shows "\<not> (\<exists>f. f 0 = s \<and> (\<forall>i. pipe_internal pe (f i) (f (Suc i)))) \<and>
     (\<forall>s'. (pipe_internal pe)\<^sup>*\<^sup>* s s' \<longrightarrow> \<not> (\<exists>s''. pipe_internal pe s' s'') \<longrightarrow>
        at_rest items s' \<and> pl_cluster s' = pl_cluster s \<and> pl_services s' = pl_services s \<and> pl_endpoints s' = pl_endpoints s)"
proof (intro conjI allI impI)
  have inv: "pipe_inv pe view items busy s"
    by (rule pipe_reach_inv[OF assms(1,7) pipe_start_inv[OF assms(1-6)]])
  with assms(1) show "\<not> (\<exists>f. f 0 = s \<and> (\<forall>i. pipe_internal pe (f i) (f (Suc i))))"
    by (intro pipe_run.no_infinite_run conjI)
  fix s' assume r: "(pipe_internal pe)\<^sup>*\<^sup>* s s'" and stuck: "\<not> (\<exists>s''. pipe_internal pe s' s'')"
  show "at_rest items s'" by (rule stuck_at_rest[OF assms(1) inv assms(8) r stuck])
  show "pl_cluster s' = pl_cluster s" and "pl_services s' = pl_services s" and "pl_endpoints s' = pl_endpoints s"
    by (rule internal_reach[OF assms(1) r inv])+
qed


text \<open>An instance: a queue that keeps track of the elements taken, and a ring of 1024 events.\<close>

definition example_delivery :: "(element list \<times> element list \<times> bool) workqueue" where
  "example_delivery = \<lparr>
     wq_Add = (\<lambda>e (es, b, d). if d \<or> e \<in> set es then (es, b, d) else (es @ [e], b, d)),
     wq_AddRateLimited = (\<lambda>e (es, b, d). if d \<or> e \<in> set es then (es, b, d) else (es @ [e], b, d)),
     wq_Get = (\<lambda>(es, b, d). case filter (\<lambda>e. e \<notin> set b) es of
          [] \<Rightarrow> if d then Some (\<lparr>el_Key = '''', el_Timestamp = 0, el_IsSkippable = False\<rparr>, True, es, b, d) else None
        | e # _ \<Rightarrow> Some (e, False, filter (\<lambda>x. x \<noteq> e) es, e # b, d)),
     wq_Forget = (\<lambda>e q. q), wq_Done = (\<lambda>e (es, b, d). (es, filter (\<lambda>x. x \<noteq> e) b, d)),
     wq_ShutDown = (\<lambda>(es, b, d). (es, b, True)), wq_ShuttingDown = (\<lambda>(es, b, d). d) \<rparr>"

definition example_push :: "'e \<Rightarrow> 'e list \<Rightarrow> 'e list" where
  "example_push e es = (if length es < 1024 then es @ [e] else drop 1 (es @ [e]))"

lemma example_Get:
  "\<forall>q e quit q'. wq_Get example_delivery q = Some (e, quit, q') \<longrightarrow> (quit \<longrightarrow> wq_ShuttingDown example_delivery q) \<and>
      (\<not> quit \<longrightarrow> e \<in> set (fst q) \<and> set (fst q') = set (fst q) - {e} \<and> set (fst (snd q')) = insert e (set (fst (snd q)))) \<and>
      wq_ShuttingDown example_delivery q' = wq_ShuttingDown example_delivery q"
proof (intro allI impI)
  fix q e quit q' assume g: "wq_Get example_delivery q = Some (e, quit, q')"
  obtain es b d where q: "q = (es, b, d)" by (cases q)
  show "(quit \<longrightarrow> wq_ShuttingDown example_delivery q) \<and>
      (\<not> quit \<longrightarrow> e \<in> set (fst q) \<and> set (fst q') = set (fst q) - {e} \<and> set (fst (snd q')) = insert e (set (fst (snd q)))) \<and>
      wq_ShuttingDown example_delivery q' = wq_ShuttingDown example_delivery q"
  proof (cases "filter (\<lambda>e. e \<notin> set b) es")
    case Nil
    with g show ?thesis by (auto simp: q example_delivery_def split: if_splits)
  next
    case (Cons a r)
    then have "a \<in> set es" by (metis filter_is_subset list.set_intros(1) subsetD)
    with g Cons show ?thesis by (auto simp: q example_delivery_def)
  qed
qed

lemma example_delivery_laws: "delivery_laws example_delivery (\<lambda>q. set (fst q)) (\<lambda>q. set (fst (snd q)))"
  unfolding delivery_laws_def
  by (intro conjI example_Get) (auto simp: example_delivery_def filter_empty_conv split: list.splits)

lemma example_ring_laws: "ring_laws example_push"
proof (unfold ring_laws_def, intro allI)
  fix e :: 'e and es
  show "\<exists>k \<le> length es. example_push e es = drop k (es @ [e])"
  proof (cases "length es < 1024")
    case True
    then show ?thesis by (intro exI[of _ 0]) (simp add: example_push_def)
  next
    case False
    then have "1 \<le> length es" by simp
    with False show ?thesis by (intro exI[of _ 1]) (simp add: example_push_def)
  qed
qed

definition example_pipe ::
  "(unit, (string, ingress) go_map, element list \<times> element list \<times> bool, (string, string \<times> int) go_map) pipe_env" where
  "example_pipe = \<lparr>pe_store = example_store_env, pe_queue = example_delivery, pe_key = (\<lambda>_. Inr ''key''),
     pe_push = example_push, pe_http = example_env, pe_manager = example_manager\<rparr>"

lemma example_pipe_laws: "pipe_laws example_pipe map_of (\<lambda>q. set (fst q)) (\<lambda>q. set (fst (snd q)))"
  unfolding pipe_laws_def
  by (simp add: example_pipe_def example_cache_laws example_delivery_laws example_ring_laws) (simp add: example_store_env_def)

definition example_start ::
  "(unit, (string, ingress) go_map, element list \<times> element list \<times> bool, (string, string \<times> int) go_map) pipeline" where
  "example_start = pipe_start example_pipe empty_store ([], [], False) example_controller
     [''default/wls'' \<mapsto> example_service ''default'' ''wls''] (OtherObject ''initial-sync'') 5 []"

lemma example_not_down: "\<not> wq_ShuttingDown (pe_queue example_pipe) ([], [], False)"
  by (simp add: example_pipe_def example_delivery_def)

lemma pipeline_comes_to_rest_witness:
  "\<not> (\<exists>f. f 0 = example_start \<and> (\<forall>i. pipe_internal example_pipe (f i) (f (Suc i))))"
proof -
  obtain mc ss where new: "NewWLSController example_cfg example_api_client
      (Inr \<lparr>pi_name = ''a'', pi_namespace = ''wls'', pi_labels = []\<rparr>) = Inr (example_controller, mc, ss)"
    using example_new_controller by blast
  have "pl_ingresses example_pipe example_start = []"
    by (simp add: pl_ingresses_def example_start_def pipe_start_def ListIngresses_def empty_store_def example_pipe_def
        example_store_env_def)
  then have ok: "rules_ok (pl_ingresses example_pipe example_start)" by (simp add: rules_ok_def)
  have e: "map_of (ks_cache empty_store) = Map.empty" by (simp add: empty_store_def)
  show ?thesis
    using pipeline_comes_to_rest[OF example_pipe_laws new e _ example_not_down _
        rtranclp.rtrancl_refl[of "pipe_step example_pipe" example_start, folded example_start_def, unfolded example_start_def]]
    ok unfolding example_start_def by simp
qed

text \<open>A run: an Ingress and the Endpoints of its Service arrive, and the pipeline comes to rest.\<close>

lemma example_ingress_step:
  obtains s where "pipe_step example_pipe example_start s" "\<not> pl_svcChanged s" "\<not> pl_svcStale s"
    "pl_ingresses example_pipe s = [synced example_store_env (example_k8s_ingress ''wls'')]"
    "pl_services s = [''default/wls'' \<mapsto> example_service ''default'' ''wls'']"
proof -
  let ?e = "Added (NetworkingIngress (example_k8s_ingress ''wls''))"
  let ?i = "example_k8s_ingress ''wls''"
  let ?st' = "send CreateEvent (NetworkingIngress ?i)
     (store_syncIngress example_store_env ?i (record_event ''CREATE'' ?i empty_store))"
  have run: "ingEventHandler example_store_env ?e empty_store = Inr ?st'"
    by (simp add: ing_AddFunc_def IsValid_iff example_store_env_def example_k8s_ingress_def IngressKey_def)
  have w: "watch example_store_env Map.empty ?e [''default/web'' \<mapsto> NetworkingIngress ?i]"
    using watch.added[of example_store_env "NetworkingIngress ?i" ?i Map.empty] by (simp add: example_key)
  have f: "pe_store example_pipe = example_store_env" "pl_store example_start = empty_store"
    "pl_cluster example_start = Map.empty" "pl_clock example_start = 5"
    by (simp_all add: example_pipe_def example_start_def pipe_start_def)
  have c: "ks_cache ?st' = [(''default/web'', synced example_store_env ?i)]"
    using example_key[of "''wls''"]
    by (simp add: empty_store_def meta_key_def) (simp add: example_store_env_def)
  let ?s = "(notified example_pipe ?st' (ks_cache ?st' \<noteq> ks_cache (pl_store example_start)) 6 example_start)
     \<lparr>pl_cluster := [''default/web'' \<mapsto> NetworkingIngress ?i]\<rparr>"
  have "pl_ingresses example_pipe ?s = [synced example_store_env ?i]"
    by (simp add: pl_ingresses_def notified_def ListIngresses_def f c del: store_fields) (simp add: example_store_env_def)
  moreover have "pipe_step example_pipe example_start ?s"
    by (rule pipe_step.ingress[where e = ?e]) (simp_all add: f w run del: ingEventHandler.simps)
  moreover have "\<not> pl_svcChanged ?s" "\<not> pl_svcStale ?s"
    "pl_services ?s = [''default/wls'' \<mapsto> example_service ''default'' ''wls'']"
    by (simp_all add: notified_def example_start_def pipe_start_def)
  ultimately show thesis using that by blast
qed

definition example_wls_endpoints :: k8s_endpoints where
  "example_wls_endpoints = example_k8s_endpoints [''10.0.0.1'']"

lemma example_new:
  obtains mc ss where "NewWLSController example_cfg example_api_client
      (Inr \<lparr>pi_name = ''a'', pi_namespace = ''wls'', pi_labels = []\<rparr>) = Inr (example_controller, mc, ss)"
  using example_new_controller by blast

lemma example_run:
  obtains s where "(pipe_step example_pipe)\<^sup>*\<^sup>* example_start s" "at_rest (\<lambda>q. set (fst q)) s" "\<not> pl_svcStale s"
    "pl_ingresses example_pipe s = [synced example_store_env (example_k8s_ingress ''wls'')]"
    "pl_services s = [''default/wls'' \<mapsto> example_service ''default'' ''wls'']"
    "pl_endpoints s ''default/wls'' = Some example_wls_endpoints"
proof -
  let ?ings = "[synced example_store_env (example_k8s_ingress ''wls'')]"
  note laws = example_pipe_laws
  obtain mc ss where new: "NewWLSController example_cfg example_api_client
      (Inr \<lparr>pi_name = ''a'', pi_namespace = ''wls'', pi_labels = []\<rparr>) = Inr (example_controller, mc, ss)"
    by (rule example_new)
  have e: "map_of (ks_cache empty_store) = Map.empty" by (simp add: empty_store_def)
  have inv0: "pipe_inv example_pipe map_of (\<lambda>q. set (fst q)) (\<lambda>q. set (fst (snd q))) example_start"
    unfolding example_start_def by (rule pipe_start_inv[OF laws new e _ example_not_down]) simp_all
  obtain s where s: "pipe_step example_pipe example_start s" "\<not> pl_svcChanged s" "\<not> pl_svcStale s"
    "pl_ingresses example_pipe s = ?ings" "pl_services s = [''default/wls'' \<mapsto> example_service ''default'' ''wls'']"
    by (rule example_ingress_step)
  let ?w = "ep_watch (pe_store example_pipe) (pl_endpoints s) (Added (EndpointsObject example_wls_endpoints))
    ((pl_endpoints s)(meta_key (pe_store example_pipe) (eps_meta example_wls_endpoints) \<mapsto> example_wls_endpoints))"
  have w: ?w by (rule ep_watch.added)
  from pipe_step.endpoints[OF this order.refl] obtain t where t: "pipe_step example_pipe s t"
    "\<not> pl_svcChanged t" "\<not> pl_svcStale t" "pl_ingresses example_pipe t = ?ings" "pl_services t = pl_services s"
    "pl_endpoints t (meta_key (pe_store example_pipe) (eps_meta example_wls_endpoints)) = Some example_wls_endpoints"
    using s(2-4) by (fastforce simp: pl_ingresses_def)
  have key: "meta_key (pe_store example_pipe) (eps_meta example_wls_endpoints) = ''default/wls''"
    by (simp add: example_pipe_def example_store_env_def meta_key_def MetaNamespaceKey_ok[OF example_lib_ok]
        example_wls_endpoints_def example_k8s_endpoints_def example_meta_def namespaced_name_def)
  have inv: "pipe_inv example_pipe map_of (\<lambda>q. set (fst q)) (\<lambda>q. set (fst (snd q))) t"
    by (rule pipe_step_inv[OF laws t(1) pipe_step_inv[OF laws s(1) inv0]])
  have "rules_ok ?ings"
    by (simp add: synced_def example_k8s_ingress_def example_rule_def default_rule_def default_path_def
        rules_ok_def rule_ok_def all_rules_def)
  then obtain u where u: "(pipe_internal example_pipe)\<^sup>*\<^sup>* t u" "at_rest (\<lambda>q. set (fst q)) u"
    using drains[OF laws inv] t(4) by auto
  have "(pipe_step example_pipe)\<^sup>*\<^sup>* t u"
    using u(1) by (rule rtranclp_mono[THEN predicate2D, rotated]) (auto intro: pipe_step.internal)
  with s(1) t(1) have "(pipe_step example_pipe)\<^sup>*\<^sup>* example_start u" by (meson converse_rtranclp_into_rtranclp)
  moreover have "\<not> pl_svcStale u" using pipe_svc.reach_inv[OF u(1)] t(2,3) by blast
  ultimately show thesis
    using that u(2) internal_reach(3-5)[OF laws u(1) inv] t(4-6) s(5) key by metis
qed

lemma example_unambiguous: "unambiguous example_lib [synced example_store_env (example_k8s_ingress ''wls'')]"
  by (simp add: synced_def example_k8s_ingress_def example_rule_def default_rule_def default_path_def
      unambiguous_def all_rules_def)

lemma example_pipe_lib: "se_lib (pe_store example_pipe) = example_lib"
  by (simp add: example_pipe_def example_store_env_def)


text \<open>Its only host, and the servers of its Service before and after the Service is removed.\<close>

lemma example_route:
  "route [synced example_store_env (example_k8s_ingress ''wls'')] ''a.com'' = Some (''default'', example_rule ''a.com'' ''wls'')"
  by (simp add: route_def all_rules_def synced_def example_k8s_ingress_def example_rule_def default_rule_def default_path_def)

lemma example_serves:
  assumes "serves_rules example_lib st [synced example_store_env (example_k8s_ingress ''wls'')] h"
  shows "\<exists>eps. handler_getEndpoints h ''a.com'' = Inr eps \<and>
     mset (map server_key (elems eps)) = mset (map server_key (elems (fst (serviceEndpoints example_lib st ''default/wls'' ''80''))))"
proof -
  have "lib_intstr_String example_lib (IntVal 80) = ''80''" by code_simp
  with assms[unfolded serves_rules_def, rule_format, of "''a.com''"] show ?thesis
    unfolding example_route by (auto simp: first_backend_def example_rule_def)
qed

lemma example_servers:
  assumes "pl_services s = [''default/wls'' \<mapsto> example_service ''default'' ''wls'']"
    and "pl_endpoints s ''default/wls'' = Some example_wls_endpoints"
  shows "map server_key (elems (fst (serviceEndpoints example_lib (pl_storer s) ''default/wls'' ''80''))) =
     [(''10.0.0.1'', ''7001'')]"
proof -
  have i: "Itoa 7001 = ''7001''" "Itoa 80 = ''80''" by code_simp+
  have "MetaNamespaceKey example_lib (example_meta ''default'' ''wls'') = ''default/wls''"
    by (simp add: MetaNamespaceKey_ok[OF example_lib_ok] example_meta_def namespaced_name_def)
  then show ?thesis
    by (simp add: serviceEndpoints_def pl_storer_def store_storer_def ByKey_def assms example_service_def port_matches_def i
        getEndpoints_def example_wls_endpoints_def example_k8s_endpoints_def target_port_def server_key_def Let_def)
qed

lemma example_no_servers:
  assumes "pl_services s = Map.empty"
  shows "serviceEndpoints example_lib (pl_storer s) ''default/wls'' port = (None, Some (NotExistsError ''default/wls''))"
  by (simp add: serviceEndpoints_def pl_storer_def store_storer_def ByKey_def assms)


end
