(* ===== verification/Startup.thy ===== *)
theory Startup
  imports ControllerSync
begin

text \<open>
  The start and the end of the process: the command line (\<open>cmd/wls/flags.go\<close>), \<open>main\<close> and its
  helpers (\<open>cmd/wls/main.go\<close>), the port probe (\<open>internal/net\<close>), and the order in
  which \<open>Start\<close> of the controller brings its goroutines up (\<open>wls.go\<close>, \<open>store.go\<close>).

  What the operating system, the API server and client-go answer are the fields of \<open>main_env\<close>. An
  end of the process is a value: \<open>os.Exit\<close> with its code, or the message of \<open>klog.Fatal\<close>.
\<close>

section \<open>Model\<close>

subsection \<open>net.go\<close>

text \<open>\<open>dial\<close> is \<open>net.Dial\<close>: an error when nothing listens.\<close>

definition IsPortAvailable :: "(string \<Rightarrow> string \<Rightarrow> unit or_error) \<Rightarrow> int \<Rightarrow> bool" where
  "IsPortAvailable dial p = (case dial ''tcp'' ('':'' @ Itoa p) of Inl _ \<Rightarrow> True | Inr _ \<Rightarrow> False)"

text \<open>\<open>To4\<close> of the package \<open>net\<close>, on the bytes of an address.\<close>

definition To4 :: "8 word list \<Rightarrow> 8 word list option" where
  "To4 ip = (if length ip = 4 then Some ip
     else if length ip = 16 \<and> take 12 ip = replicate 10 0 @ [0xFF, 0xFF] then Some (drop 12 ip)
     else None)"

definition IsIPV6 :: "8 word list option \<Rightarrow> bool" where
  "IsIPV6 ip = (case ip of None \<Rightarrow> False | Some b \<Rightarrow> To4 b = None)"

text \<open>
  \<open>test\<close> is the error of running \<open>test -f /proc/net/if_inet6\<close>, \<open>parseCIDR\<close> gives the address of an
  interface, nil when it does not parse.
\<close>

definition IsIPv6Enabled ::
  "go_error option \<Rightarrow> string list or_error \<Rightarrow> (string \<Rightarrow> 8 word list option) \<Rightarrow> bool" where
  "IsIPv6Enabled test addrs parseCIDR =
     (if test \<noteq> None then False
      else (case addrs of Inl _ \<Rightarrow> False | Inr as \<Rightarrow> list_ex (\<lambda>addr. IsIPV6 (parseCIDR addr)) as))"

subsection \<open>flags.go\<close>

text \<open>
  The values of the flags after \<open>flags.Parse\<close>; \<open>default_flags\<close> are those of an empty command line.
  Left out are \<open>status-port\<close>, which is ignored, and \<open>sync-rate-limit\<close>. An \<open>int\<close> of Go has 64 bits,
  a duration counts nanoseconds in 64 bits.
\<close>

record flag_values =
  fl_apiserverHost :: string
  fl_kubeConfigFile :: string
  fl_ingressClass :: string
  fl_publishSvc :: string
  fl_watchNamespace :: string
  fl_defHealthzURL :: string
  fl_defHealthCheckTimeout :: "64 word"
  fl_showVersion :: bool
  fl_enableMetrics :: bool
  fl_electionID :: string
  fl_httpPort :: int
  fl_defServerPort :: int
  fl_healthzPort :: int
  fl_redisSentinelService :: string
  fl_redisSentinelPort :: int
  fl_redisMasterName :: string
  fl_redisMaxRetries :: int
  fl_redisMinRetryBackoff :: int
  fl_redisMaxRetryBackoff :: int
  fl_redisNamespacePrefix :: string

definition default_flags :: flag_values where
  "default_flags = \<lparr>fl_apiserverHost = '''', fl_kubeConfigFile = '''', fl_ingressClass = '''', fl_publishSvc = '''',
     fl_watchNamespace = '''', fl_defHealthzURL = ''/healthz'', fl_defHealthCheckTimeout = 10, fl_showVersion = False,
     fl_enableMetrics = True, fl_electionID = ''wls-ingress-controller-leader'', fl_httpPort = 8080,
     fl_defServerPort = 8181, fl_healthzPort = 10254, fl_redisSentinelService = ''redis-redis-ha.redis'',
     fl_redisSentinelPort = 26379, fl_redisMasterName = ''mymaster'', fl_redisMaxRetries = 3,
     fl_redisMinRetryBackoff = 5 * 10 ^ 9, fl_redisMaxRetryBackoff = 10 * 10 ^ 9, fl_redisNamespacePrefix = ''WLS-ING''\<rparr>"

text \<open>The package variables that the flags set, with their initial values.\<close>

record globals =
  gl_IngressClass :: string
  gl_HealthPath :: string
  gl_HealthCheckTimeout :: "64 word"
  gl_IsNetworkingIngressAvailable :: bool

definition time_Second :: "64 word" where
  "time_Second = 10 ^ 9"

definition initial_globals :: globals where
  "initial_globals = \<lparr>gl_IngressClass = initial_IngressClass, gl_HealthPath = ''/healthz'',
     gl_HealthCheckTimeout = 10 * time_Second, gl_IsNetworkingIngressAvailable = False\<rparr>"

definition flags_config :: "flag_values \<Rightarrow> controller_config" where
  "flags_config fl = \<lparr>cc_APIServerHost = fl_apiserverHost fl, cc_KubeConfigFile = fl_kubeConfigFile fl,
     cc_DefaultService = '''', cc_Namespace = fl_watchNamespace fl,
     cc_ListenPorts = Some \<lparr>lp_HTTP = fl_httpPort fl, lp_Health = fl_healthzPort fl, lp_Default = fl_defServerPort fl\<rparr>,
     cc_EnableMetrics = fl_enableMetrics fl, cc_ElectionID = fl_electionID fl, cc_PublishService = fl_publishSvc fl,
     cc_RedisSentinelService = fl_redisSentinelService fl, cc_RedisSentinelPort = fl_redisSentinelPort fl,
     cc_RedisMasterName = fl_redisMasterName fl, cc_RedisMaxRetries = fl_redisMaxRetries fl,
     cc_RedisMinRetryBackoff = fl_redisMinRetryBackoff fl, cc_RedisMaxRetryBackoff = fl_redisMaxRetryBackoff fl,
     cc_RedisNamespacePrefix = fl_redisNamespacePrefix fl\<rparr>"

text \<open>\<open>parseFlags\<close> after the command line is parsed: its three results, and the package variables.\<close>

definition port_in_use :: "int \<Rightarrow> string \<Rightarrow> go_error" where
  "port_in_use p name = ''Port '' @ Itoa p @ '' is already in use. Please check the flag --'' @ name"

definition parseFlags ::
  "(string \<Rightarrow> string \<Rightarrow> unit or_error) \<Rightarrow> flag_values \<Rightarrow> globals
     \<Rightarrow> (bool \<times> controller_config option \<times> go_error option) \<times> globals" where
  "parseFlags dial fl g =
     (if fl_showVersion fl then ((True, None, None), g)
      else
        let g1 = (if fl_ingressClass fl \<noteq> '''' then g\<lparr>gl_IngressClass := fl_ingressClass fl\<rparr> else g) in
        if \<not> IsPortAvailable dial (fl_httpPort fl)
        then ((False, None, Some (port_in_use (fl_httpPort fl) ''http-port'')), g1)
        else if \<not> IsPortAvailable dial (fl_defServerPort fl)
        then ((False, None, Some (port_in_use (fl_defServerPort fl) ''default-server-port'')), g1)
        else
          let g2 = g1\<lparr>gl_HealthPath := fl_defHealthzURL fl\<rparr>;
              g3 = (if 0 <s fl_defHealthCheckTimeout fl
                    then g2\<lparr>gl_HealthCheckTimeout := fl_defHealthCheckTimeout fl * time_Second\<rparr> else g2)
          in ((False, Some (flags_config fl), None), g3))"

subsection \<open>main.go: the API client\<close>

record rest_config =
  rs_Host :: string
  rs_QPS :: int
  rs_Burst :: int
  rs_ContentType :: string

text \<open>
  The variables that the condition of the retry loop shares with \<open>createApiserverClient\<close>, with the
  state of the world the requests run in. The delays of the backoff are not part of the model.
\<close>

record 'w discovery =
  dv_version :: "string option"
  dv_lastErr :: "go_error option"
  dv_retries :: int
  dv_world :: 'w

datatype api_error = Unauthorized | Forbidden | ApiError string

record ('k, 'v, 'w, 'a) main_env =
  me_dial :: "string \<Rightarrow> string \<Rightarrow> unit or_error"
  me_getenv :: "string \<Rightarrow> string"
  me_BuildConfigFromFlags :: "string \<Rightarrow> string \<Rightarrow> rest_config or_error"
  me_NewForConfig :: "rest_config \<Rightarrow> 'k or_error"
  me_ServerVersion :: "'k \<Rightarrow> 'w \<Rightarrow> string or_error \<times> 'w"
  me_ExponentialBackoff :: "nat \<Rightarrow> ('w discovery \<Rightarrow> (bool \<times> go_error option) \<times> 'w discovery) \<Rightarrow> 'w discovery
     \<Rightarrow> go_error option \<times> 'w discovery"
  me_GetService :: "'k \<Rightarrow> string \<Rightarrow> string \<Rightarrow> api_error option"
  me_GetNamespace :: "'k \<Rightarrow> string \<Rightarrow> go_error option"
  me_ParseGeneric :: "string \<Rightarrow> 'v or_error"
  me_AtLeast :: "'v \<Rightarrow> 'v \<Rightarrow> bool"
  me_GetPod :: "'k \<Rightarrow> string \<Rightarrow> string \<Rightarrow> pod option"
  me_statusClient :: "'k \<Rightarrow> 'a status_client"

definition retry_Steps :: nat where
  "retry_Steps = 10"

definition discover ::
  "('k, 'v, 'w, 'a) main_env \<Rightarrow> 'k \<Rightarrow> 'w discovery \<Rightarrow> (bool \<times> go_error option) \<times> 'w discovery" where
  "discover env kubeClient d =
     (case me_ServerVersion env kubeClient (dv_world d) of
        (Inr v, w) \<Rightarrow> ((True, None), d\<lparr>dv_version := Some v, dv_world := w\<rparr>)
      | (Inl err, w) \<Rightarrow> ((False, None),
          d\<lparr>dv_version := None, dv_lastErr := Some err, dv_retries := dv_retries d + 1, dv_world := w\<rparr>))"

text \<open>
  The client, or the error. The error after a failed backoff is \<open>lastErr\<close>, which would be nil, and
  the client nil with it, if the condition had never run; the model has \<open>Inr None\<close> for that.
\<close>

definition createApiserverClient ::
  "('k, 'v, 'w, 'a) main_env \<Rightarrow> string \<Rightarrow> string \<Rightarrow> 'w \<Rightarrow> 'k option or_error \<times> 'w" where
  "createApiserverClient env apiserverHost kubeConfig w =
     (case me_BuildConfigFromFlags env apiserverHost kubeConfig of
        Inl err \<Rightarrow> (Inl err, w)
      | Inr cfg \<Rightarrow>
          (case me_NewForConfig env (cfg\<lparr>rs_QPS := 10 ^ 6, rs_Burst := 10 ^ 6,
               rs_ContentType := ''application/vnd.kubernetes.protobuf''\<rparr>) of
             Inl err \<Rightarrow> (Inl err, w)
           | Inr kubeClient \<Rightarrow>
               (case me_ExponentialBackoff env retry_Steps (discover env kubeClient)
                   \<lparr>dv_version = None, dv_lastErr = None, dv_retries = 0, dv_world = w\<rparr> of
                  (Some _, d) \<Rightarrow> ((case dv_lastErr d of Some err \<Rightarrow> Inl err | None \<Rightarrow> Inr None), dv_world d)
                | (None, d) \<Rightarrow> (Inr (Some kubeClient), dv_world d))))"

subsection \<open>main.go: main\<close>

datatype ('a) main_outcome =
    Exit int
  | Fatal string
  | Panic go_panic
  | Started controller manager_config "'a statusSync"

definition handleFatalInitError :: "go_error \<Rightarrow> string" where
  "handleFatalInitError err =
     ''Error while initiating a connection to the Kubernetes API server. '' @
     ''This could mean the cluster is misconfigured (e.g. it has invalid API server certificates '' @
     ''or Service Accounts configuration). Reason: '' @ err @ [CHR 0x0A]"

definition restrictive_authorization :: string where
  "restrictive_authorization = [CHR 0xE2, CHR 0x9C, CHR 0x96] @
     '' The cluster seems to be running with a restrictive Authorization mode and the Ingress controller '' @
     ''does not have the required permissions to operate normally.''"

text \<open>The check of the default service: the message \<open>main\<close> dies with, if any.\<close>

definition check_default_service ::
  "('k, 'v, 'w, 'a) main_env \<Rightarrow> 'k \<Rightarrow> controller_config \<Rightarrow> string option" where
  "check_default_service env kubeClient conf =
     (if cc_DefaultService conf = '''' then None
      else (case ParseNameNS (cc_DefaultService conf) of
         Inl err \<Rightarrow> Some err
       | Inr (defSvcNs, defSvcName) \<Rightarrow>
           (case me_GetService env kubeClient defSvcNs defSvcName of
              None \<Rightarrow> None
            | Some Unauthorized \<Rightarrow> Some restrictive_authorization
            | Some Forbidden \<Rightarrow> Some restrictive_authorization
            | Some (ApiError err) \<Rightarrow>
                Some (''No service with name '' @ cc_DefaultService conf @ '' found: '' @ err))))"

definition check_namespace ::
  "('k, 'v, 'w, 'a) main_env \<Rightarrow> 'k \<Rightarrow> controller_config \<Rightarrow> string option" where
  "check_namespace env kubeClient conf =
     (if cc_Namespace conf = '''' then None
      else map_option (\<lambda>err. ''No namespace with name '' @ cc_Namespace conf @ '' found: '' @ err)
             (me_GetNamespace env kubeClient (cc_Namespace conf)))"

text \<open>From the API client to the new controller, with the world after the request for the version.\<close>

definition main_controller ::
  "('k, 'v, 'w, 'a) main_env \<Rightarrow> 'k \<Rightarrow> controller_config \<Rightarrow> globals \<Rightarrow> 'w \<Rightarrow> 'a main_outcome \<times> globals \<times> 'w" where
  "main_controller env kubeClient conf g w =
     (let (ver, w') = (case me_ParseGeneric env ''v1.14.0'' of
          Inl err \<Rightarrow> (Inl err, w) | Inr _ \<Rightarrow> me_ServerVersion env kubeClient w) in
      case NetworkingIngressAvailable (me_ParseGeneric env) (me_AtLeast env)
          (case ver of Inl _ \<Rightarrow> None | Inr v \<Rightarrow> Some v) of
        Inl p \<Rightarrow> (Panic p, g, w')
      | Inr available \<Rightarrow>
          (case NewWLSController conf (me_statusClient env kubeClient)
              (GetPodDetails (me_getenv env) (me_GetPod env kubeClient)) of
             Inl msg \<Rightarrow> (Fatal msg, g\<lparr>gl_IsNetworkingIngressAvailable := available\<rparr>, w')
           | Inr (n, mgr, ss) \<Rightarrow> (Started n mgr ss, g\<lparr>gl_IsNetworkingIngressAvailable := available\<rparr>, w')))"

definition main ::
  "('k, 'v, 'w, 'a) main_env \<Rightarrow> flag_values \<Rightarrow> globals \<Rightarrow> 'w \<Rightarrow> 'a main_outcome \<times> globals \<times> 'w" where
  "main env fl g w =
     (case parseFlags (me_dial env) fl g of
        ((True, _, _), g') \<Rightarrow> (Exit 0, g', w)
      | ((False, _, Some err), g') \<Rightarrow> (Fatal err, g', w)
      | ((False, None, None), g') \<Rightarrow> (Panic NilDereference, g', w)
      | ((False, Some conf, None), g') \<Rightarrow>
          (case createApiserverClient env (cc_APIServerHost conf) (cc_KubeConfigFile conf) w of
             (Inl err, w') \<Rightarrow> (Fatal (handleFatalInitError err), g', w')
           | (Inr None, w') \<Rightarrow> (Panic NilDereference, g', w')
           | (Inr (Some kubeClient), w') \<Rightarrow>
               (case check_default_service env kubeClient conf of
                  Some msg \<Rightarrow> (Fatal msg, g', w')
                | None \<Rightarrow>
                    (case check_namespace env kubeClient conf of
                       Some msg \<Rightarrow> (Fatal msg, g', w')
                     | None \<Rightarrow> main_controller env kubeClient conf g' w'))))"

text \<open>
  \<open>handleSigterm\<close>, from the signal on: \<open>Stop\<close> returns nil on every path, so the exit code is that of
  no error.
\<close>

definition handleSigterm ::
  "'q workqueue \<Rightarrow> (ingress list \<Rightarrow> ingress list) \<Rightarrow> 'a statusSync \<Rightarrow> ingress list \<Rightarrow> 'w manager \<Rightarrow> controller
     \<Rightarrow> 'q task_queue \<times> 'a \<Rightarrow> 'w \<Rightarrow> (int \<times> controller \<times> ('q task_queue \<times> 'a) \<times> 'w) res" where
  "handleSigterm wq sched s ings ls n a w =
     bind_res (Stop_controller wq sched s ings ls n a w) (\<lambda>(n', a', w'). Inr (0, n', a', w'))"

section \<open>The retries of the API client\<close>

text \<open>The state after a number of runs of a fallible action.\<close>

primrec rerun :: "('d \<Rightarrow> 'r \<times> 'd) \<Rightarrow> nat \<Rightarrow> 'd \<Rightarrow> 'd" where
  "rerun act 0 d = d"
| "rerun act (Suc k) d = snd (act (rerun act k d))"

text \<open>
  What is documented of \<open>wait.ExponentialBackoff\<close>: it runs the condition up to \<open>steps\<close> times, returns
  nil as soon as it holds, and an error when it never did.
\<close>

definition backoff_laws ::
  "(nat \<Rightarrow> ('d \<Rightarrow> (bool \<times> go_error option) \<times> 'd) \<Rightarrow> 'd \<Rightarrow> go_error option \<times> 'd) \<Rightarrow> bool" where
  "backoff_laws b \<longleftrightarrow>
     (\<forall>steps cond d k. k < steps \<longrightarrow> (\<forall>j < k. fst (cond (rerun cond j d)) = (False, None)) \<longrightarrow>
        fst (cond (rerun cond k d)) = (True, None) \<longrightarrow> b steps cond d = (None, rerun cond (Suc k) d)) \<and>
     (\<forall>steps cond d. (\<forall>j < steps. fst (cond (rerun cond j d)) = (False, None)) \<longrightarrow>
        (\<exists>e. b steps cond d = (Some e, rerun cond steps d)))"

lemma backoff_lawsD:
  assumes "backoff_laws b"
  shows "k < steps \<Longrightarrow> (\<And>j. j < k \<Longrightarrow> fst (cond (rerun cond j d)) = (False, None)) \<Longrightarrow>
      fst (cond (rerun cond k d)) = (True, None) \<Longrightarrow> b steps cond d = (None, rerun cond (Suc k) d)"
    and "(\<And>j. j < steps \<Longrightarrow> fst (cond (rerun cond j d)) = (False, None)) \<Longrightarrow>
      \<exists>e. b steps cond d = (Some e, rerun cond steps d)"
  using assms by (simp_all add: backoff_laws_def)

lemma discover_result:
  "dv_world (snd (discover env k d)) = snd (me_ServerVersion env k (dv_world d))"
  "fst (discover env k d) = (\<not> isl (fst (me_ServerVersion env k (dv_world d))), None)"
  "fst (me_ServerVersion env k (dv_world d)) = Inl err \<Longrightarrow> dv_lastErr (snd (discover env k d)) = Some err"
  by (auto simp: discover_def split: prod.splits sum.splits)

lemma discover_rerun: "dv_world (rerun (discover env k) j d) = rerun (me_ServerVersion env k) j (dv_world d)"
  by (induction j) (simp_all add: discover_result)

text \<open>C30: the API client is retried. When its configuration can be built, \<open>createApiserverClient\<close> asks for
  the version of the server until the first answer, at most ten times. It returns the client if
  there is an answer among the ten, after exactly as many requests as it took, and otherwise the
  error of the tenth request.\<close>

theorem createApiserverClient_retries:
  fixes env :: "('k, 'v, 'w, 'a) main_env"
  assumes "backoff_laws (me_ExponentialBackoff env)" and "me_BuildConfigFromFlags env host kubeConfig = Inr cfg"
    and "me_NewForConfig env (cfg\<lparr>rs_QPS := 10 ^ 6, rs_Burst := 10 ^ 6,
           rs_ContentType := ''application/vnd.kubernetes.protobuf''\<rparr>) = Inr k"
  shows "(\<forall>n < 10. (\<forall>j < n. isl (fst (me_ServerVersion env k (rerun (me_ServerVersion env k) j w)))) \<longrightarrow>
        \<not> isl (fst (me_ServerVersion env k (rerun (me_ServerVersion env k) n w))) \<longrightarrow>
        createApiserverClient env host kubeConfig w = (Inr (Some k), rerun (me_ServerVersion env k) (Suc n) w)) \<and>
     ((\<forall>j < 10. isl (fst (me_ServerVersion env k (rerun (me_ServerVersion env k) j w)))) \<longrightarrow>
        (\<exists>err. fst (me_ServerVersion env k (rerun (me_ServerVersion env k) 9 w)) = Inl err \<and>
           createApiserverClient env host kubeConfig w = (Inl err, rerun (me_ServerVersion env k) 10 w)))"
proof -
  let ?sv = "me_ServerVersion env k" and ?d = "\<lparr>dv_version = None, dv_lastErr = None, dv_retries = 0, dv_world = w\<rparr>"
  have cond: "fst (discover env k (rerun (discover env k) j ?d)) = (\<not> isl (fst (?sv (rerun ?sv j w))), None)" for j
    by (simp add: discover_result discover_rerun)
  have run: "createApiserverClient env host kubeConfig w =
      (case me_ExponentialBackoff env 10 (discover env k) ?d of
         (Some _, d) \<Rightarrow> ((case dv_lastErr d of Some err \<Rightarrow> Inl err | None \<Rightarrow> Inr None), dv_world d)
       | (None, d) \<Rightarrow> (Inr (Some k), dv_world d))"
    by (simp only: createApiserverClient_def assms(2,3) sum.case retry_Steps_def)
  have "createApiserverClient env host kubeConfig w = (Inr (Some k), rerun ?sv (Suc n) w)"
    if "n < 10" and "\<forall>j < n. isl (fst (?sv (rerun ?sv j w)))" and "\<not> isl (fst (?sv (rerun ?sv n w)))" for n
  proof -
    have "me_ExponentialBackoff env 10 (discover env k) ?d = (None, rerun (discover env k) (Suc n) ?d)"
      using that by (intro backoff_lawsD(1)[OF assms(1)]) (simp_all add: cond)
    then show ?thesis by (simp add: run discover_rerun discover_result)
  qed
  moreover have "\<exists>err. fst (?sv (rerun ?sv 9 w)) = Inl err \<and>
      createApiserverClient env host kubeConfig w = (Inl err, rerun ?sv 10 w)"
    if fails: "\<forall>j < 10. isl (fst (?sv (rerun ?sv j w)))"
  proof -
    have "fst (discover env k (rerun (discover env k) j ?d)) = (False, None)" if "j < 10" for j
      using fails that by (simp add: cond)
    from backoff_lawsD(2)[OF assms(1), of 10 "discover env k" ?d, OF this] obtain e where b: "me_ExponentialBackoff env 10 (discover env k) ?d = (Some e, rerun (discover env k) 10 ?d)" by blast
    obtain err where err: "fst (?sv (rerun ?sv 9 w)) = Inl err" using fails[rule_format, of 9] by (auto simp: isl_def)
    have "dv_lastErr (rerun (discover env k) 10 ?d) = Some err"
      using rerun.simps(2)[of "discover env k" 9 ?d] discover_result(3)[of env k "rerun (discover env k) 9 ?d" err] err
      by (simp add: discover_rerun numeral_eq_Suc del: rerun.simps)
    with b err show ?thesis by (simp add: run discover_rerun)
  qed
  ultimately show ?thesis by blast
qed

text \<open>An instance: a server that fails twice, and the documented loop.\<close>

fun example_backoff :: "nat \<Rightarrow> ('d \<Rightarrow> (bool \<times> go_error option) \<times> 'd) \<Rightarrow> 'd \<Rightarrow> go_error option \<times> 'd" where
  "example_backoff 0 cond d = (Some ''timed out waiting for the condition'', d)"
| "example_backoff (Suc n) cond d =
     (case cond d of
        ((_, Some e), d') \<Rightarrow> (Some e, d')
      | ((True, None), d') \<Rightarrow> (None, d')
      | ((False, None), d') \<Rightarrow> example_backoff n cond d')"

lemma rerun_shift: "rerun act j (snd (act d)) = rerun act (Suc j) d"
  by (induction j) simp_all

lemma example_backoff_laws: "backoff_laws example_backoff"
proof -
  have holds: "example_backoff steps cond d = (None, rerun cond (Suc k) d)"
    if "k < steps" "\<forall>j < k. fst (cond (rerun cond j d)) = (False, None)" "fst (cond (rerun cond k d)) = (True, None)"
    for steps k and cond :: "'d \<Rightarrow> (bool \<times> go_error option) \<times> 'd" and d
    using that
  proof (induction steps arbitrary: k d)
    case (Suc steps)
    show ?case
    proof (cases k)
      case 0
      with Suc.prems(3) show ?thesis by (cases "cond d") auto
    next
      case (Suc m)
      have "fst (cond d) = (False, None)" using Suc.prems(2) Suc by (metis rerun.simps(1) zero_less_Suc)
      then have "example_backoff (Suc steps) cond d = example_backoff steps cond (snd (cond d))"
        by (cases "cond d") simp
      also have "\<dots> = (None, rerun cond (Suc m) (snd (cond d)))"
        using Suc.prems Suc by (intro Suc.IH) (simp_all only: rerun_shift, auto)
      finally show ?thesis using Suc by (simp only: rerun_shift)
    qed
  qed simp
  have fails: "\<exists>e. example_backoff steps cond d = (Some e, rerun cond steps d)"
    if "\<forall>j < steps. fst (cond (rerun cond j d)) = (False, None)"
    for steps and cond :: "'d \<Rightarrow> (bool \<times> go_error option) \<times> 'd" and d
    using that
  proof (induction steps arbitrary: d)
    case (Suc steps)
    have "fst (cond d) = (False, None)" using Suc.prems by (metis rerun.simps(1) zero_less_Suc)
    then have "example_backoff (Suc steps) cond d = example_backoff steps cond (snd (cond d))"
      by (cases "cond d") simp
    moreover have "\<exists>e. example_backoff steps cond (snd (cond d)) = (Some e, rerun cond steps (snd (cond d)))"
      using Suc.prems by (intro Suc.IH) (simp only: rerun_shift, auto)
    ultimately show ?case by (simp only: rerun_shift)
  qed simp
  show ?thesis unfolding backoff_laws_def by (intro conjI allI impI; (rule holds | rule fails); assumption)
qed

definition example_main_env :: "(unit, int, nat, (string \<times> string, k8s_ingress) go_map) main_env" where
  "example_main_env = \<lparr>
     me_dial = (\<lambda>_ _. Inl ''connection refused''),
     me_getenv = (\<lambda>v. if v = ''POD_NAME'' then ''wls-0'' else if v = ''POD_NAMESPACE'' then ''ingress'' else ''''),
     me_BuildConfigFromFlags = (\<lambda>_ _. Inr \<lparr>rs_Host = ''https://10.0.0.1'', rs_QPS = 5, rs_Burst = 10, rs_ContentType = ''''\<rparr>),
     me_NewForConfig = (\<lambda>_. Inr ()),
     me_ServerVersion = (\<lambda>_ n. (if n < 2 then Inl ''connection refused'' else Inr ''v1.15.0'', Suc n)),
     me_ExponentialBackoff = example_backoff,
     me_GetService = (\<lambda>_ _ _. None), me_GetNamespace = (\<lambda>_ _. None),
     me_ParseGeneric = (\<lambda>v. if v = ''v1.14.0'' then Inr 14 else if v = ''v1.15.0'' then Inr 15 else Inl ''not a version''),
     me_AtLeast = (\<lambda>a b. a \<ge> b),
     me_GetPod = (\<lambda>_ ns name. Some \<lparr>pod_meta = example_meta ns name, pod_phase = PodRunning, pod_nodeName = ''n1''\<rparr>),
     me_statusClient = (\<lambda>_. example_api_client) \<rparr>"

lemma createApiserverClient_retries_witness:
  "createApiserverClient example_main_env '''' '''' 0 = (Inr (Some ()), 3)"
proof -
  have r: "rerun (me_ServerVersion example_main_env ()) j 0 = j" for j
    by (induction j) (simp_all add: example_main_env_def)
  have sv: "isl (fst (me_ServerVersion example_main_env () n)) \<longleftrightarrow> n < 2" for n by (simp add: example_main_env_def)
  have l: "backoff_laws (me_ExponentialBackoff example_main_env)"
    by (simp add: example_main_env_def example_backoff_laws)
  have c: "me_BuildConfigFromFlags example_main_env '''' '''' =
      Inr \<lparr>rs_Host = ''https://10.0.0.1'', rs_QPS = 5, rs_Burst = 10, rs_ContentType = ''''\<rparr>"
    "me_NewForConfig example_main_env x = Inr ()" for x by (simp_all add: example_main_env_def)
  show ?thesis
    using spec[OF conjunct1[OF createApiserverClient_retries[OF l c, of 0]], of 2] by (simp add: r sv)
qed

section \<open>Flags and start\<close>

lemma parseFlags_simps:
  "fl_showVersion fl \<Longrightarrow> parseFlags dial fl g = ((True, None, None), g)"
  "\<not> fl_showVersion fl \<Longrightarrow> \<not> IsPortAvailable dial (fl_httpPort fl) \<or> \<not> IsPortAvailable dial (fl_defServerPort fl) \<Longrightarrow>
     \<exists>err g'. parseFlags dial fl g = ((False, None, Some err), g')"
  "\<not> fl_showVersion fl \<Longrightarrow> IsPortAvailable dial (fl_httpPort fl) \<Longrightarrow> IsPortAvailable dial (fl_defServerPort fl) \<Longrightarrow>
     parseFlags dial fl g = ((False, Some (flags_config fl), None), snd (parseFlags dial fl g))"
  by (auto simp: parseFlags_def Let_def)

text \<open>C40: the health check timeout. A timeout of at most 9223372036 seconds is stored as that many
  nanoseconds; a larger one overflows 64 bits, and one that is not positive leaves the default.\<close>

theorem parseFlags_health_timeout:
  assumes "\<not> fl_showVersion fl" and "IsPortAvailable dial (fl_httpPort fl)" and "IsPortAvailable dial (fl_defServerPort fl)"
  shows "(sint (fl_defHealthCheckTimeout fl) \<le> 0 \<longrightarrow>
       gl_HealthCheckTimeout (snd (parseFlags dial fl g)) = gl_HealthCheckTimeout g) \<and>
     (0 < sint (fl_defHealthCheckTimeout fl) \<longrightarrow>
       (sint (gl_HealthCheckTimeout (snd (parseFlags dial fl g))) = sint (fl_defHealthCheckTimeout fl) * 10 ^ 9 \<longleftrightarrow>
        sint (fl_defHealthCheckTimeout fl) \<le> 9223372036))"
proof -
  let ?n = "fl_defHealthCheckTimeout fl"
  have s: "sint time_Second = 10 ^ 9" by (simp add: time_Second_def)
  have m: "sint (?n * time_Second) = signed_take_bit 63 (sint ?n * 10 ^ 9)"
    by (simp add: sint_word_ariths s)
  have "sint (?n * time_Second) = sint ?n * 10 ^ 9 \<longleftrightarrow> sint ?n \<le> 9223372036" if "0 < sint ?n"
  proof
    assume "sint (?n * time_Second) = sint ?n * 10 ^ 9"
    moreover have "sint (?n * time_Second) < 2 ^ 63" using sint_lt[of "?n * time_Second"] by simp
    ultimately show "sint ?n \<le> 9223372036" by simp
  next
    assume "sint ?n \<le> 9223372036"
    with that show "sint (?n * time_Second) = sint ?n * 10 ^ 9" unfolding m by (simp add: signed_take_bit_int_eq_self)
  qed
  with assms show ?thesis by (auto simp: parseFlags_def Let_def word_sless_alt)
qed

lemma parseFlags_health_timeout_witness:
  "sint (gl_HealthCheckTimeout (snd (parseFlags (\<lambda>_ _. Inl ''connection refused'') default_flags initial_globals))) = 10 * 10 ^ 9"
  using parseFlags_health_timeout[of default_flags "\<lambda>_ _. Inl ''connection refused''" initial_globals]
  by (simp add: default_flags_def IsPortAvailable_def)

lemma main_controller_starts:
  "(\<exists>n mgr ss. fst (main_controller env k conf g w) = Started n mgr ss) \<longleftrightarrow>
     (case me_ParseGeneric env ''v1.14.0'' of
        Inl _ \<Rightarrow> True
      | Inr _ \<Rightarrow> (\<exists>v r. fst (me_ServerVersion env k w) = Inr v \<and> me_ParseGeneric env v = Inr r)) \<and>
     (\<exists>p. GetPodDetails (me_getenv env) (me_GetPod env k) = Inr p)"
  by (cases "me_ParseGeneric env ''v1.14.0''")
    (auto simp: main_controller_def NetworkingIngressAvailable_def NewWLSController_def Let_def bind_res_def deref_def
      split: prod.splits sum.splits option.splits)

text \<open>With both ports free; the flags never name a default service.\<close>

lemma main_free_ports:
  assumes "\<not> fl_showVersion fl" and "IsPortAvailable (me_dial env) (fl_httpPort fl)"
    and "IsPortAvailable (me_dial env) (fl_defServerPort fl)"
  shows "main env fl g w =
     (case createApiserverClient env (fl_apiserverHost fl) (fl_kubeConfigFile fl) w of
        (Inl err, w') \<Rightarrow> (Fatal (handleFatalInitError err), snd (parseFlags (me_dial env) fl g), w')
      | (Inr None, w') \<Rightarrow> (Panic NilDereference, snd (parseFlags (me_dial env) fl g), w')
      | (Inr (Some k), w') \<Rightarrow>
          (case check_namespace env k (flags_config fl) of
             Some msg \<Rightarrow> (Fatal msg, snd (parseFlags (me_dial env) fl g), w')
           | None \<Rightarrow> main_controller env k (flags_config fl) (snd (parseFlags (me_dial env) fl g)) w'))"
proof -
  have c: "cc_DefaultService (flags_config fl) = ''''" "cc_APIServerHost (flags_config fl) = fl_apiserverHost fl"
    "cc_KubeConfigFile (flags_config fl) = fl_kubeConfigFile fl" by (simp_all add: flags_config_def)
  have d: "check_default_service env k (flags_config fl) = None" for k by (simp add: check_default_service_def c)
  show ?thesis unfolding main_def by (subst parseFlags_simps(3)[OF assms]) (simp add: c d split: prod.split sum.split option.split)
qed

lemma main_not_started:
  assumes "fl_showVersion fl \<or> \<not> IsPortAvailable (me_dial env) (fl_httpPort fl) \<or>
     \<not> IsPortAvailable (me_dial env) (fl_defServerPort fl)"
  shows "\<exists>g'. main env fl g w = (Exit 0, g', w) \<or> (\<exists>err. main env fl g w = (Fatal err, g', w))"
proof (cases "fl_showVersion fl")
  case True
  then show ?thesis by (simp add: main_def parseFlags_simps)
next
  case False
  with parseFlags_simps(2)[OF False, of "me_dial env" g] assms obtain err g' where
    "parseFlags (me_dial env) fl g = ((False, None, Some err), g')" by blast
  then show ?thesis by (simp add: main_def)
qed

lemma main_Started:
  assumes "fst (main env fl g w) = Started n mgr ss"
  shows "\<not> isLeader n \<and> handler_getEndpoints (ct_proxy n) host = Inr None"
proof -
  have "\<not> (fl_showVersion fl \<or> \<not> IsPortAvailable (me_dial env) (fl_httpPort fl) \<or>
      \<not> IsPortAvailable (me_dial env) (fl_defServerPort fl))"
    using main_not_started[of fl env g w] assms by fastforce
  then have free: "\<not> fl_showVersion fl" "IsPortAvailable (me_dial env) (fl_httpPort fl)"
    "IsPortAvailable (me_dial env) (fl_defServerPort fl)" by simp_all
  obtain cfg cl pod where "NewWLSController cfg cl pod = Inr (n, mgr, ss)"
    using assms unfolding main_free_ports[OF free] main_controller_def
    by (auto simp: Let_def split: prod.splits sum.splits option.splits)
  then show ?thesis
    by (auto simp: NewWLSController_def Let_def isLeader_def InstallHandler_def handler_getEndpoints_def
        new_configuration_def split: sum.splits)
qed

lemma main_ignores_GetService: "main (env\<lparr>me_GetService := any_answer\<rparr>) fl g w = main env fl g w"
proof -
  let ?env = "env\<lparr>me_GetService := any_answer\<rparr>"
  have sel: "me_dial ?env = me_dial env" "me_getenv ?env = me_getenv env"
    "me_BuildConfigFromFlags ?env = me_BuildConfigFromFlags env" "me_NewForConfig ?env = me_NewForConfig env"
    "me_ServerVersion ?env = me_ServerVersion env" "me_ExponentialBackoff ?env = me_ExponentialBackoff env"
    "me_GetNamespace ?env = me_GetNamespace env" "me_ParseGeneric ?env = me_ParseGeneric env"
    "me_AtLeast ?env = me_AtLeast env" "me_GetPod ?env = me_GetPod env" "me_statusClient ?env = me_statusClient env"
    by simp_all
  have d: "check_default_service ?env k (flags_config fl) = check_default_service env k (flags_config fl)" for k
    by (simp add: check_default_service_def flags_config_def)
  have v: "discover ?env = discover env" unfolding discover_def sel ..
  have c: "createApiserverClient ?env = createApiserverClient env" unfolding createApiserverClient_def sel v ..
  have n: "check_namespace ?env = check_namespace env" "main_controller ?env = main_controller env"
    unfolding check_namespace_def main_controller_def sel by (rule refl)+
  consider "fl_showVersion fl" | "\<exists>err g'. parseFlags (me_dial env) fl g = ((False, None, Some err), g')"
    | g' where "parseFlags (me_dial env) fl g = ((False, Some (flags_config fl), None), g')"
    using parseFlags_simps(2,3)[of fl "me_dial env" g] by metis
  then show ?thesis
    unfolding main_def c n sel by cases (auto simp: parseFlags_simps(1) d split: prod.split sum.split option.split)
qed

text \<open>C29: when the controller starts. \<open>main\<close> gets to a controller exactly when no version is asked for, both
  probed ports are free, the API client is created, a configured namespace exists, the version of
  the server can be read, and the pod is found; the new controller serves no host and does not
  lead. The default service is never looked up, whatever the API server would answer.\<close>

theorem main_starts_iff:
  "((\<exists>n mgr ss. fst (main env fl g w) = Started n mgr ss) \<longleftrightarrow>
      \<not> fl_showVersion fl \<and> IsPortAvailable (me_dial env) (fl_httpPort fl) \<and>
      IsPortAvailable (me_dial env) (fl_defServerPort fl) \<and>
      (\<exists>k w'. createApiserverClient env (fl_apiserverHost fl) (fl_kubeConfigFile fl) w = (Inr (Some k), w') \<and>
        (fl_watchNamespace fl = '''' \<or> me_GetNamespace env k (fl_watchNamespace fl) = None) \<and>
        (case me_ParseGeneric env ''v1.14.0'' of
           Inl _ \<Rightarrow> True
         | Inr _ \<Rightarrow> (\<exists>v r. fst (me_ServerVersion env k w') = Inr v \<and> me_ParseGeneric env v = Inr r)) \<and>
        (\<exists>p. GetPodDetails (me_getenv env) (me_GetPod env k) = Inr p))) \<and>
   (fst (main env fl g w) = Started n mgr ss \<longrightarrow>
      \<not> isLeader n \<and> handler_getEndpoints (ct_proxy n) host = Inr None) \<and>
   main (env\<lparr>me_GetService := any_answer\<rparr>) fl g w = main env fl g w"
proof (intro conjI impI)
  show "(\<exists>n mgr ss. fst (main env fl g w) = Started n mgr ss) \<longleftrightarrow>
      \<not> fl_showVersion fl \<and> IsPortAvailable (me_dial env) (fl_httpPort fl) \<and>
      IsPortAvailable (me_dial env) (fl_defServerPort fl) \<and>
      (\<exists>k w'. createApiserverClient env (fl_apiserverHost fl) (fl_kubeConfigFile fl) w = (Inr (Some k), w') \<and>
        (fl_watchNamespace fl = '''' \<or> me_GetNamespace env k (fl_watchNamespace fl) = None) \<and>
        (case me_ParseGeneric env ''v1.14.0'' of
           Inl _ \<Rightarrow> True
         | Inr _ \<Rightarrow> (\<exists>v r. fst (me_ServerVersion env k w') = Inr v \<and> me_ParseGeneric env v = Inr r)) \<and>
        (\<exists>p. GetPodDetails (me_getenv env) (me_GetPod env k) = Inr p))" (is "?started \<longleftrightarrow> _ \<and> _ \<and> _ \<and> ?rest")
  proof (cases "\<not> fl_showVersion fl \<and> IsPortAvailable (me_dial env) (fl_httpPort fl) \<and>
      IsPortAvailable (me_dial env) (fl_defServerPort fl)")
    case True
    then have free: "\<not> fl_showVersion fl" "IsPortAvailable (me_dial env) (fl_httpPort fl)"
      "IsPortAvailable (me_dial env) (fl_defServerPort fl)" by simp_all
    have ns: "check_namespace env k (flags_config fl) = None \<longleftrightarrow>
        fl_watchNamespace fl = '''' \<or> me_GetNamespace env k (fl_watchNamespace fl) = None" for k
      by (simp add: check_namespace_def flags_config_def)
    have "?started \<longleftrightarrow> (\<exists>k w'. createApiserverClient env (fl_apiserverHost fl) (fl_kubeConfigFile fl) w = (Inr (Some k), w') \<and>
        check_namespace env k (flags_config fl) = None \<and>
        (\<exists>n mgr ss. fst (main_controller env k (flags_config fl) (snd (parseFlags (me_dial env) fl g)) w') = Started n mgr ss))"
      unfolding main_free_ports[OF free] by (auto split: prod.splits sum.splits option.splits)
    then show ?thesis unfolding main_controller_starts ns using True by simp
  next
    case False
    with main_not_started[of fl env g w] have "\<not> ?started" by fastforce
    with False show ?thesis by blast
  qed
next
  assume "fst (main env fl g w) = Started n mgr ss"
  from main_Started[OF this] show "\<not> isLeader n" and "handler_getEndpoints (ct_proxy n) host = Inr None" by simp_all
qed (rule main_ignores_GetService)

lemma main_starts_iff_witness:
  "\<exists>n mgr ss. fst (main example_main_env default_flags initial_globals 0) = Started n mgr ss"
proof -
  have c: "createApiserverClient example_main_env '''' '''' 0 = (Inr (Some ()), 3)" by code_simp
  show ?thesis
    using conjunct1[OF main_starts_iff[of example_main_env default_flags initial_globals 0 undefined undefined undefined]]
    by (simp add: default_flags_def c) (simp add: example_main_env_def IsPortAvailable_def GetPodDetails_def Let_def)
qed


section \<open>The order of the start\<close>

text \<open>
  The statements of \<open>Start\<close> (\<open>wls.go\<close>) up to the event loop, with those of \<open>Informer.Run\<close> (\<open>store.go\<close>)
  in their place; the sleep of a second is left out. The goroutines they start run concurrently
  with the statements that follow: the worker of the queue from \<open>RunSyncQueue\<close> on, the callbacks of
  the election from \<open>SetupLeaderElection\<close> on, requests from \<open>StartListener\<close> on.
\<close>

datatype start_action =
    RunSyncQueue
  | EnqueueInitialSync
  | RunInformer informer
  | WaitForCacheSync "informer list"
  | StartRedis
  | SetupLeaderElection
  | StartListener

definition Informer_Run :: "start_action list" where
  "Informer_Run = [RunInformer EndpointInformer, RunInformer ServiceInformer, RunInformer PodInformer,
     WaitForCacheSync [EndpointInformer, ServiceInformer], RunInformer IngressInformer, WaitForCacheSync [IngressInformer]]"

definition Start_controller :: "start_action list" where
  "Start_controller = [RunSyncQueue, EnqueueInitialSync] @ Informer_Run @ [StartRedis, SetupLeaderElection, StartListener]"

text \<open>
  The state: the statements to come, whether the worker runs, the informers that run and those
  that were waited for, the session manager (\<open>None\<close> while its client is nil), the election, the
  controller and the redis world.
\<close>

record 'w boot =
  bt_todo :: "start_action list"
  bt_worker :: bool
  bt_running :: "informer set"
  bt_waited :: "informer set"
  bt_manager :: "'w manager option"
  bt_election :: "leader_election option"
  bt_controller :: controller
  bt_world :: 'w

definition boot_start :: "controller \<Rightarrow> 'w \<Rightarrow> 'w boot" where
  "boot_start n w = \<lparr>bt_todo = Start_controller, bt_worker = False, bt_running = {}, bt_waited = {}, bt_manager = None,
     bt_election = None, bt_controller = n, bt_world = w\<rparr>"

text \<open>The error of \<open>redisManager.Start\<close> is dropped: the client is set even when the ping fails.\<close>

fun perform ::
  "(failover_options \<Rightarrow> 'w redis_client) \<Rightarrow> manager_config \<Rightarrow> start_action \<Rightarrow> 'w boot \<Rightarrow> 'w boot" where
  "perform newClient mgr RunSyncQueue s = s\<lparr>bt_worker := True\<rparr>"
| "perform newClient mgr EnqueueInitialSync s = s"
| "perform newClient mgr (RunInformer i) s = s\<lparr>bt_running := insert i (bt_running s)\<rparr>"
| "perform newClient mgr (WaitForCacheSync is) s = s\<lparr>bt_waited := set is \<union> bt_waited s\<rparr>"
| "perform newClient mgr StartRedis s =
     (case Start newClient mgr (bt_world s) of (_, ls, w) \<Rightarrow> s\<lparr>bt_manager := Some ls, bt_world := w\<rparr>)"
| "perform newClient mgr SetupLeaderElection s = s\<lparr>bt_election := Some setupLeaderElection\<rparr>"
| "perform newClient mgr StartListener s = s\<lparr>bt_controller := start_listener (bt_controller s)\<rparr>"

inductive boot_step ::
  "(failover_options \<Rightarrow> 'w redis_client) \<Rightarrow> manager_config \<Rightarrow> handler_env \<Rightarrow> k8s_lib \<Rightarrow> 'w boot \<Rightarrow> 'w boot \<Rightarrow> bool"
  for newClient :: "failover_options \<Rightarrow> 'w redis_client" and mgr :: manager_config and env :: handler_env and lib :: k8s_lib where
  statement: "bt_todo s = a # rest \<Longrightarrow> boot_step newClient mgr env lib s (perform newClient mgr a (s\<lparr>bt_todo := rest\<rparr>))"
| sync: "bt_worker s \<Longrightarrow> bt_manager s = Some ls \<or> \<not> isLeader (bt_controller s) \<Longrightarrow>
     controller_syncIngress sord ord lib st ls False ings (bt_controller s) (bt_world s) = Inr (err, n', w') \<Longrightarrow>
     boot_step newClient mgr env lib s (s\<lparr>bt_controller := n', bt_world := w'\<rparr>)"
| elect: "bt_election s = Some le \<Longrightarrow> election_callback b (le, bt_controller s) = Inr (le', n') \<Longrightarrow>
     boot_step newClient mgr env lib s (s\<lparr>bt_election := Some le', bt_controller := n'\<rparr>)"
| serve: "ct_httpListener (bt_controller s) \<Longrightarrow> bt_manager s = Some ls \<Longrightarrow>
     handleRootWLS env ls (ct_proxy (bt_controller s)) (bt_world s) r i = Inr (h', w', oc) \<Longrightarrow>
     boot_step newClient mgr env lib s (s\<lparr>bt_controller := (bt_controller s)\<lparr>ct_proxy := h'\<rparr>, bt_world := w'\<rparr>)"

definition boot_inv :: "'w boot \<Rightarrow> bool" where
  "boot_inv s \<longleftrightarrow> (\<exists>before. Start_controller = before @ bt_todo s \<and>
     (StartRedis \<in> set before \<longrightarrow> bt_manager s \<noteq> None) \<and>
     (bt_election s \<noteq> None \<longrightarrow> SetupLeaderElection \<in> set before) \<and>
     (isLeader (bt_controller s) \<longrightarrow> bt_election s \<noteq> None) \<and>
     (ct_httpListener (bt_controller s) \<longrightarrow> StartListener \<in> set before) \<and>
     (IngressInformer \<in> bt_running s \<longrightarrow> RunInformer IngressInformer \<in> set before) \<and>
     (WaitForCacheSync [EndpointInformer, ServiceInformer] \<in> set before \<longrightarrow>
        {EndpointInformer, ServiceInformer} \<subseteq> bt_waited s))"

text \<open>What the order of the statements says about every point of the start.\<close>

lemma Start_controller_order:
  assumes "Start_controller = before @ todo"
  shows "SetupLeaderElection \<in> set before \<or> StartListener \<in> set before \<Longrightarrow> StartRedis \<in> set before"
    and "RunInformer IngressInformer \<in> set before \<Longrightarrow> WaitForCacheSync [EndpointInformer, ServiceInformer] \<in> set before"
  using assms by (auto simp: Start_controller_def Informer_Run_def Cons_eq_append_conv)

lemma syncIngress_flags:
  assumes "controller_syncIngress sord ord lib st ls sd ings n w = Inr (err, n', w')"
  shows "isLeader n' = isLeader n \<and> ct_httpListener n' = ct_httpListener n"
  using assms
proof (cases rule: syncIngress_cases)
  case (reloaded c)
  with OnUpdate_result(2)[OF reloaded(4)] show ?thesis by (simp add: isLeader_def)
qed simp_all

lemma boot_step_inv:
  assumes "boot_step newClient mgr env lib s s'" and "boot_inv s"
  shows "boot_inv s'"
  using assms(1)
proof cases
  case (statement a rest)
  from assms(2) obtain before where b: "Start_controller = before @ bt_todo s"
    "StartRedis \<in> set before \<longrightarrow> bt_manager s \<noteq> None" "bt_election s \<noteq> None \<longrightarrow> SetupLeaderElection \<in> set before"
    "isLeader (bt_controller s) \<longrightarrow> bt_election s \<noteq> None"
    "ct_httpListener (bt_controller s) \<longrightarrow> StartListener \<in> set before"
    "IngressInformer \<in> bt_running s \<longrightarrow> RunInformer IngressInformer \<in> set before"
    "WaitForCacheSync [EndpointInformer, ServiceInformer] \<in> set before \<longrightarrow>
       {EndpointInformer, ServiceInformer} \<subseteq> bt_waited s" unfolding boot_inv_def by blast
  have todo: "bt_todo s' = rest" unfolding statement(1) by (cases a) (simp_all split: prod.splits)
  show ?thesis unfolding boot_inv_def todo
    by (rule exI[of _ "before @ [a]"], cases a)
      (use b in \<open>auto simp: statement start_listener_def isLeader_def split: prod.splits\<close>)
next
  case (sync ls sord ord st ings err n' w')
  with assms(2) syncIngress_flags[OF sync(4)] show ?thesis by (simp add: boot_inv_def)
next
  case (elect le b le' n')
  have "ct_httpListener n' = ct_httpListener (bt_controller s)"
    using elect(3) by (cases b) (auto simp: OnStartedLeading_def OnStoppedLeading_def setLeader_def Let_def)
  with assms(2) elect show ?thesis by (auto simp: boot_inv_def)
next
  case (serve ls r i h' w' oc)
  with assms(2) show ?thesis by (simp add: boot_inv_def isLeader_def)
qed

interpretation boot: invariant_steps "boot_step newClient mgr env lib" boot_inv
  for newClient mgr env lib
  by unfold_locales (rule boot_step_inv)



end
