(* ===== verification/StatusRun.thy ===== *)
theory StatusRun
  imports ControllerSync
begin

text \<open>
  The life of the status syncer (\<open>Run\<close>, \<open>Shutdown\<close> of \<open>internal/ingress/status\<close>) across leads: what
  its polls do to the session table, what its shutdown does to the published status, and how many
  workers serve its queue.

  \<open>Run\<close> is started anew with every lead and starts a worker of the one queue of the syncer. The
  worker waits in \<open>Get\<close> and looks at no stop channel, so it outlives the lead (\<open>queue_Run_after_quit\<close>).
  When the queue is shut down all of them leave through the same check of \<open>workerDone\<close>; \<open>exit_step\<close>
  interleaves them.
\<close>

section \<open>Model\<close>

text \<open>\<open>task.GetDummyObject\<close>. The key function of the status queue returns the object itself, a pointer;
  a pointer is named by a string.\<close>

definition GetDummyObject :: "string \<Rightarrow> object_meta" where
  "GetDummyObject name = \<lparr>om_namespace = '''', om_name = name, om_annotations = [], om_labels = [],
     om_creationTimestamp = 0\<rparr>"

definition keyfunc :: "string \<Rightarrow> string or_error" where
  "keyfunc input = Inr input"

definition NewStatusSyncer ::
  "pod_info \<Rightarrow> 'a status_client \<Rightarrow> bool \<Rightarrow> string \<Rightarrow> 'q \<Rightarrow> 'a statusSync \<times> 'q task_queue" where
  "NewStatusSyncer podInfo c updateStatusOnShutdown publishService newQueue =
     (\<lparr>ss_Client = c, ss_UpdateStatusOnShutdown = updateStatusOnShutdown, ss_PublishService = publishService,
       ss_pod = podInfo\<rparr>, NewCustomTaskQueue newQueue)"

text \<open>One call of the polled function: the time, the new dummy object, and the caches it finds.\<close>

record poll_input =
  po_stopped :: bool
  po_now :: int
  po_obj :: string
  po_storer :: storer
  po_ingresses :: "ingress list"

definition poll_round ::
  "'q workqueue \<Rightarrow> ((string \<times> string) list \<Rightarrow> (string \<times> string) list) \<Rightarrow> 'w manager \<Rightarrow> poll_input
     \<Rightarrow> 'q task_queue \<times> 'w \<Rightarrow> ('q task_queue \<times> 'w) res" where
  "poll_round wq ord ls p s =
     (let t = EnqueueTask wq keyfunc (po_now p) (po_obj p) (fst s) in
      bind_res (status_poll ord ls (po_storer p) (po_ingresses p) (snd s)) (\<lambda>w. Inr (t, w)))"

text \<open>\<open>wait.PollUntil\<close>: the function returns \<open>false\<close>, so that only \<open>stopCh\<close> ends the polling.\<close>

primrec poll_until ::
  "'q workqueue \<Rightarrow> ((string \<times> string) list \<Rightarrow> (string \<times> string) list) \<Rightarrow> 'w manager \<Rightarrow> poll_input list
     \<Rightarrow> 'q task_queue \<times> 'w \<Rightarrow> ('q task_queue \<times> 'w) res" where
  "poll_until wq ord ls [] s = Inr s"
| "poll_until wq ord ls (p # ps) s =
     (if po_stopped p then Inr s else bind_res (poll_round wq ord ls p s) (poll_until wq ord ls ps))"

text \<open>\<open>Run\<close> starts one more worker of the queue (the first component counts them) and polls.\<close>

definition status_Run ::
  "'q workqueue \<Rightarrow> ((string \<times> string) list \<Rightarrow> (string \<times> string) list) \<Rightarrow> 'w manager \<Rightarrow> int \<Rightarrow> string \<Rightarrow> poll_input list
     \<Rightarrow> nat \<times> 'q task_queue \<times> 'w \<Rightarrow> (nat \<times> 'q task_queue \<times> 'w) res" where
  "status_Run wq ord ls now obj ps s =
     (let workers = Suc (fst s); q = EnqueueTask wq keyfunc now obj (fst (snd s)) in
      bind_res (poll_until wq ord ls ps (q, snd (snd s))) (\<lambda>s'. Inr (workers, s')))"

text \<open>
  The workers of one queue after its shutdown: each has received \<open>quit\<close> from \<open>Get\<close>, checks whether
  \<open>workerDone\<close> is closed and closes it if not. The check and the close are two actions.
\<close>

datatype exit_phase = AtCheck | BeforeClose | Returned

inductive exit_step :: "(exit_phase list \<times> bool) res \<Rightarrow> (exit_phase list \<times> bool) res \<Rightarrow> bool" where
  closed: "i < length ws \<Longrightarrow> ws ! i = AtCheck \<Longrightarrow> isClosed ch \<Longrightarrow> exit_step (Inr (ws, ch)) (Inr (ws[i := Returned], ch))"
| opened: "i < length ws \<Longrightarrow> ws ! i = AtCheck \<Longrightarrow> \<not> isClosed ch \<Longrightarrow> exit_step (Inr (ws, ch)) (Inr (ws[i := BeforeClose], ch))"
| closes: "i < length ws \<Longrightarrow> ws ! i = BeforeClose \<Longrightarrow>
     exit_step (Inr (ws, ch)) (bind_res (close_channel ch) (\<lambda>ch'. Inr (ws[i := Returned], ch')))"

section \<open>Polls\<close>

text \<open>The servers of a rule's service, as the configuration has them.\<close>

definition routed :: "k8s_lib \<Rightarrow> storer \<Rightarrow> ingress list \<Rightarrow> string \<Rightarrow> bool" where
  "routed lib st ings a \<longleftrightarrow> (\<exists>ns rule svc port e. (ns, rule) \<in> set (all_rules ings) \<and>
     st_GetService st (ns @ ''/'' @ ib_serviceName (first_backend rule)) = Inr svc \<and>
     svc_type svc \<noteq> ServiceTypeExternalName \<and>
     MetaNamespaceKey lib (svc_meta svc) = ns @ ''/'' @ ib_serviceName (first_backend rule) \<and>
     e \<in> set (elems (fst (serviceEndpoints lib st (ns @ ''/'' @ ib_serviceName (first_backend rule)) port))) \<and>
     Address e = a)"

lemma poll_round_keeps:
  assumes "redis_laws (client ls) view" and "literal_namespace ls" and "range_order ord"
    and "poll_round wq ord ls p s = Inr s'" and "routed lib (po_storer p) (po_ingresses p) a"
    and "view (snd s) k = Some (a, t)"
  shows "view (snd s') k = Some (a, t)"
proof -
  from assms(5) obtain ns rule svc port e where r: "(ns, rule) \<in> set (all_rules (po_ingresses p))"
    "st_GetService (po_storer p) (ns @ ''/'' @ ib_serviceName (first_backend rule)) = Inr svc"
    "svc_type svc \<noteq> ServiceTypeExternalName"
    "MetaNamespaceKey lib (svc_meta svc) = ns @ ''/'' @ ib_serviceName (first_backend rule)"
    "e \<in> set (elems (fst (serviceEndpoints lib (po_storer p) (ns @ ''/'' @ ib_serviceName (first_backend rule)) port)))"
    "Address e = a" unfolding routed_def by blast
  from assms(4) have "status_poll ord ls (po_storer p) (po_ingresses p) (snd s) = Inr (snd s')"
    by (auto simp: poll_round_def)
  from poll_keeps_routed[OF assms(1-3) this r(1-5)] assms(6) r(6) show ?thesis by simp
qed

lemma poll_until_keeps:
  assumes "redis_laws (client ls) view" and "literal_namespace ls" and "range_order ord"
  shows "poll_until wq ord ls ps s = Inr s' \<Longrightarrow>
     \<forall>p \<in> set (takeWhile (\<lambda>p. \<not> po_stopped p) ps). routed lib (po_storer p) (po_ingresses p) a \<Longrightarrow>
     view (snd s) k = Some (a, t) \<Longrightarrow> view (snd s') k = Some (a, t)"
proof (induction ps arbitrary: s)
  case (Cons p ps)
  show ?case
  proof (cases "po_stopped p")
    case False
    with Cons.prems(1) obtain u where u: "poll_round wq ord ls p s = Inr u" "poll_until wq ord ls ps u = Inr s'" by auto
    from Cons.prems(2) False have r: "routed lib (po_storer p) (po_ingresses p) a"
      "\<forall>p \<in> set (takeWhile (\<lambda>p. \<not> po_stopped p) ps). routed lib (po_storer p) (po_ingresses p) a" by auto
    show ?thesis by (rule Cons.IH[OF u(2) r(2) poll_round_keeps[OF assms u(1) r(1) Cons.prems(3)]])
  qed (use Cons.prems in simp)
qed simp

section \<open>Workers\<close>

text \<open>A worker that was started returns only after the queue has told it to quit.\<close>

lemma worker_quits:
  "worker wq sync readings t w = Some (Inr (t', w')) \<Longrightarrow> tq_workerDone t'"
proof (induction readings arbitrary: t w)
  case (Cons r readings)
  obtain ts now where r: "r = (ts, now)" by (cases r)
  from Cons.prems obtain t1 ph where g: "worker_get wq ts t = Some (Inr (t1, ph))"
    by (auto simp: r split: option.splits sum.splits)
  from g show ?case
  proof (cases rule: worker_get_Some)
    case (exit item q)
    then have "tq_workerDone t1"
      using g by (auto simp: worker_get_def worker_item_def isClosed_def close_channel_def split: if_splits)
    with exit Cons.prems g show ?thesis by (simp add: r)
  next
    case (skip item q)
    with Cons g show ?thesis by (simp add: r)
  next
    case (sync item q)
    with Cons g show ?thesis by (auto simp: r split: prod.splits)
  qed
qed simp

lemma queue_Run_after_quit:
  assumes "queue_Run wq sync ((False, readings) # rounds) t w = Some (Inr (t', w'))"
  shows "\<exists>t1 w1. worker wq sync readings t w = Some (Inr (t1, w1)) \<and> tq_workerDone t1"
  using assms worker_quits by (fastforce split: option.splits sum.splits)

text \<open>One worker alone never finds the channel closed between its check and its close.\<close>

interpretation lone_exit: invariant_steps exit_step
  "\<lambda>s. \<exists>ws ch. s = Inr (ws, ch) \<and> length ws \<le> 1 \<and> (BeforeClose \<in> set ws \<longrightarrow> \<not> ch)"
proof
  fix s t
  assume step: "exit_step s t" and "\<exists>ws ch. s = Inr (ws, ch) \<and> length ws \<le> 1 \<and> (BeforeClose \<in> set ws \<longrightarrow> \<not> ch)"
  then obtain ws ch where s: "s = Inr (ws, ch)" "length ws \<le> 1" "BeforeClose \<in> set ws \<longrightarrow> \<not> ch" by blast
  have one: "ws = [ws ! 0] \<and> i = 0" if "i < length ws" for i
    using that s(2) by (cases ws) auto
  from step show "\<exists>ws ch. t = Inr (ws, ch) \<and> length ws \<le> 1 \<and> (BeforeClose \<in> set ws \<longrightarrow> \<not> ch)"
  proof cases
    case (closed i us d)
    with one[of i] s show ?thesis by (cases ws) auto
  next
    case (opened i us d)
    with s show ?thesis by (auto simp: isClosed_def)
  next
    case (closes i us d)
    with one[of i] s show ?thesis by (cases ws) (auto simp: close_channel_def)
  qed
qed

lemma two_exits_panic:
  "exit_step\<^sup>*\<^sup>* (Inr (AtCheck # AtCheck # ws, False)) (Inl CloseOfClosedChannel)"
proof -
  let ?s1 = "Inr (BeforeClose # AtCheck # ws, False)" and ?s2 = "Inr (BeforeClose # BeforeClose # ws, False)"
  let ?s3 = "Inr (Returned # BeforeClose # ws, True)"
  have "exit_step (Inr (AtCheck # AtCheck # ws, False)) ?s1"
    using exit_step.opened[of 0 "AtCheck # AtCheck # ws" False] by (simp add: isClosed_def)
  moreover have "exit_step ?s1 ?s2"
    using exit_step.opened[of 1 "BeforeClose # AtCheck # ws" False] by (simp add: isClosed_def)
  moreover have "exit_step ?s2 ?s3"
    using exit_step.closes[of 0 "BeforeClose # BeforeClose # ws" False] by (simp add: close_channel_def)
  moreover have "exit_step ?s3 (Inl CloseOfClosedChannel)"
    using exit_step.closes[of 1 "Returned # BeforeClose # ws" True] by (simp add: close_channel_def)
  ultimately show ?thesis by (meson converse_rtranclp_into_rtranclp rtranclp.rtrancl_refl)
qed

section \<open>Properties\<close>

text \<open>Instances: an Ingress with a published address, and a poll that finds the servers of a service.\<close>

definition example_published :: k8s_ingress where
  "example_published = (in_Ingress (example_ingress ''default'' ''web'' []))
     \<lparr>ing_loadBalancer := [LoadBalancerIngress '''' ''192.0.2.1'']\<rparr>"

definition example_poll :: poll_input where
  "example_poll = \<lparr>po_stopped = False, po_now = 60, po_obj = ''0x2'', po_storer = example_storer, po_ingresses = example_ings\<rparr>"

lemma example_routed: "routed example_lib example_storer example_ings ''10.0.0.1''"
proof -
  let ?e = "\<lparr>Address = ''10.0.0.1'', Port = ''7001'', Target = None\<rparr>"
  let ?rule = "example_rule ''a.com'' ''wls''"
  have rule: "(''default'', ?rule) \<in> set (all_rules example_ings)"
    by (simp add: all_rules_def example_ingress_def example_meta_def)
  have b: "''default'' @ ''/'' @ ib_serviceName (first_backend ?rule) = ''default/wls''"
    by (simp add: example_rule_def first_backend_def)
  have svc: "st_GetService example_storer ''default/wls'' = Inr (example_service ''default'' ''wls'')"
    by (simp add: example_storer_def)
  have ty: "svc_type (example_service ''default'' ''wls'') \<noteq> ServiceTypeExternalName" by (simp add: example_service_def)
  have key: "MetaNamespaceKey example_lib (svc_meta (example_service ''default'' ''wls'')) = ''default/wls''"
    by (simp add: MetaNamespaceKey_ok[OF example_lib_ok] example_service_def example_meta_def namespaced_name_def)
  have "elems (fst (serviceEndpoints example_lib example_storer ''default/wls'' ''80'')) =
      [?e, ?e\<lparr>Address := ''10.0.0.2''\<rparr>]" by code_simp
  then have "?e \<in> set (elems (fst (serviceEndpoints example_lib example_storer ''default/wls'' ''80'')))" by simp
  with rule svc ty key show ?thesis unfolding routed_def by (metis b endpoint.select_convs(1))
qed

text \<open>C21: the periodic cleaning of the leader keeps every session that is still routed. However often
  it polls until its lead ends, a session whose endpoint serves a rule at every poll keeps its entry
  and its time to live.\<close>

theorem periodic_clean_keeps_routed:
  assumes "redis_laws (client ls) view" and "literal_namespace ls" and "range_order ord"
    and "status_Run wq ord ls now obj ps (m, q, w) = Inr (m', q', w')"
    and "\<forall>p \<in> set (takeWhile (\<lambda>p. \<not> po_stopped p) ps). routed lib (po_storer p) (po_ingresses p) a"
    and "view w k = Some (a, t)"
  shows "view w' k = Some (a, t)"
proof -
  from assms(4) have "poll_until wq ord ls ps (EnqueueTask wq keyfunc now obj q, w) = Inr (q', w')"
    by (auto simp: status_Run_def Let_def)
  from poll_until_keeps[OF assms(1-3) this assms(5)] assms(6) show ?thesis by simp
qed


text \<open>C22: the last replica takes its addresses back. \<open>Shutdown\<close> shuts the queue of the syncer
  down and, while the API server answers, leaves the status of every Ingress as it is when several addresses or several pods serve, and otherwise
  empties that of every listed Ingress whose cached status is not empty.\<close>

theorem Shutdown_clears_status:
  assumes "api_laws (ss_Client s) view" and "range_order sched" and "runningAddresses s = Inr addrs"
    and "sc_listPods (ss_Client s) (pi_namespace (ss_pod s)) (pi_labels (ss_pod s)) = Inr pods"
    and "ss_UpdateStatusOnShutdown s"
  shows "fst (status_Shutdown wq sched s ings (q, a)) = queue_Shutdown wq q \<and>
     view (snd (status_Shutdown wq sched s ings (q, a))) k =
     (if length addrs \<le> 1 \<and> length pods \<le> 1 \<and>
         (\<exists>ing \<in> set ings. name_of (in_Ingress ing) = k \<and> ing_loadBalancer (in_Ingress ing) \<noteq> [])
      then map_option (\<lambda>i. i\<lparr>ing_loadBalancer := []\<rparr>) (view a k) else view a k)"
  using assms(3-5)
  by (auto simp: status_Shutdown_def Let_def isRunningMultiplePods_def updateStatus_view[OF assms(1,2)])

lemma Shutdown_clears_status_witness:
  "map_option ing_loadBalancer (example_view (snd (status_Shutdown example_workqueue rev example_status
      [(example_ingress ''default'' ''web'' [])\<lparr>in_Ingress := example_published\<rparr>]
      (NewCustomTaskQueue ([], False), [((''default'', ''web''), example_published)]))) (''default'', ''web'')) = Some []"
proof -
  have a: "runningAddresses example_status = Inr [''192.0.2.1'']" by code_simp
  have p: "sc_listPods (ss_Client example_status) (pi_namespace (ss_pod example_status)) (pi_labels (ss_pod example_status)) =
      Inr [example_pod]" by code_simp
  have u: "ss_UpdateStatusOnShutdown example_status" by code_simp
  have n: "name_of example_published = (''default'', ''web'')" "ing_loadBalancer example_published \<noteq> []" by code_simp+
  show ?thesis
    unfolding Shutdown_clears_status[OF example_api_laws range_order_rev a p u, THEN conjunct2]
    using n by (simp add: example_view_def)
qed

lemma periodic_clean_keeps_routed_witness:
  "\<exists>q' w'. status_Run example_workqueue rev example_manager 5 ''0x1'' [example_poll, example_poll\<lparr>po_stopped := True\<rparr>]
       (0, NewCustomTaskQueue ([], False), [(''WLS-ING:abc'', ''10.0.0.1'', 5), (''WLS-ING:xyz'', ''10.0.0.9'', 7)]) = Inr (1, q', w') \<and>
     map_of w' ''WLS-ING:abc'' = Some (''10.0.0.1'', 5)"
proof -
  let ?w = "[(''WLS-ING:abc'', ''10.0.0.1'', 5), (''WLS-ING:xyz'', ''10.0.0.9'', 7)]"
  let ?ps = "[example_poll, example_poll\<lparr>po_stopped := True\<rparr>]"
  have poll: "status_poll rev example_manager example_storer example_ings ?w = Inr [(''WLS-ING:abc'', ''10.0.0.1'', 5)]"
    by code_simp
  obtain q' where run: "status_Run example_workqueue rev example_manager 5 ''0x1'' ?ps (0, NewCustomTaskQueue ([], False), ?w) =
      Inr (1, q', [(''WLS-ING:abc'', ''10.0.0.1'', 5)])"
    using poll by (simp add: status_Run_def poll_round_def example_poll_def Let_def)
  have "\<forall>p \<in> set (takeWhile (\<lambda>p. \<not> po_stopped p) ?ps). routed example_lib (po_storer p) (po_ingresses p) ''10.0.0.1''"
    using example_routed by (simp add: example_poll_def)
  from periodic_clean_keeps_routed[OF example_client example_literal_namespace range_order_rev run this, of "''WLS-ING:abc''" 5] run
  show ?thesis by simp
qed

end
