(* ===== verification/Election.thy ===== *)
theory Election
  imports StatusRun
begin

text \<open>
  The set-up of the leader election: \<open>setupLeaderElection\<close> of \<open>internal/ingress/controller/status.go\<close>
  and the part of \<open>Start\<close> that names the election.

  The elector of client-go is a parameter: \<open>newLeaderElector\<close> returns the error with which it rejects
  a configuration. What is used of it is that it accepts a configuration that obeys its documented
  constraints (\<open>elector_valid\<close>). Two replicas compete when their locks are the same ConfigMap.
\<close>

section \<open>Model\<close>

record leaderElectionConfig =
  lec_PodName :: string
  lec_PodNamespace :: string
  lec_ElectionID :: string

record config_map_lock =
  cml_Namespace :: string
  cml_Name :: string
  cml_Identity :: string

text \<open>Durations in nanoseconds.\<close>

record elector_config =
  exc_Lock :: config_map_lock
  exc_LeaseDuration :: int
  exc_RenewDeadline :: int
  exc_RetryPeriod :: int

definition election_ttl :: int where
  "election_ttl = 30 * 10 ^ 9"

definition electorConfig :: "leaderElectionConfig \<Rightarrow> elector_config" where
  "electorConfig config = \<lparr>
     exc_Lock = \<lparr>cml_Namespace = lec_PodNamespace config, cml_Name = lec_ElectionID config,
       cml_Identity = lec_PodName config\<rparr>,
     exc_LeaseDuration = election_ttl, exc_RenewDeadline = election_ttl div 2, exc_RetryPeriod = election_ttl div 4\<rparr>"

text \<open>\<open>Inl\<close> is the message the process dies with.\<close>

definition start_election ::
  "(elector_config \<Rightarrow> go_error option) \<Rightarrow> leaderElectionConfig \<Rightarrow> leader_election or_error" where
  "start_election newLeaderElector config =
     (case newLeaderElector (electorConfig config) of
        Some err \<Rightarrow> Inl (''unexpected error starting leader election: '' @ err)
      | None \<Rightarrow> Inr setupLeaderElection)"

definition Start_electionConfig :: "controller_config \<Rightarrow> string \<Rightarrow> pod_info \<Rightarrow> leaderElectionConfig" where
  "Start_electionConfig cfg ingressClass pod = \<lparr>lec_PodName = pi_name pod, lec_PodNamespace = pi_namespace pod,
     lec_ElectionID = election_name (cc_ElectionID cfg) ingressClass\<rparr>"

section \<open>Documented constraints of the elector\<close>

text \<open>
  The lease outlasts the renew deadline, the deadline outlasts a retry period with its jitter of 1.2,
  all are positive, and the candidate has a name.
\<close>

definition elector_valid :: "elector_config \<Rightarrow> bool" where
  "elector_valid c \<longleftrightarrow> exc_LeaseDuration c > exc_RenewDeadline c \<and> 10 * exc_RenewDeadline c > 12 * exc_RetryPeriod c \<and>
     exc_LeaseDuration c \<ge> 1 \<and> exc_RenewDeadline c \<ge> 1 \<and> exc_RetryPeriod c \<ge> 1 \<and> cml_Identity (exc_Lock c) \<noteq> ''''"

section \<open>Properties\<close>

text \<open>The class a controller serves: the default when none is configured.\<close>

definition effective_class :: "string \<Rightarrow> string" where
  "effective_class cls = (if cls = '''' then DefaultClass else cls)"

lemma election_name_class: "election_name eid cls = eid @ ''-'' @ effective_class cls"
  by (simp add: election_name_def effective_class_def)


text \<open>An elector that makes the documented checks.\<close>

definition example_elector :: "elector_config \<Rightarrow> go_error option" where
  "example_elector c = (if elector_valid c then None else Some ''invalid configuration'')"


end
