(* ===== verification/Metrics.thy ===== *)
theory Metrics
  imports Annotations
begin

text \<open>
  The metrics: \<open>internal/ingress/metric\<close> and \<open>internal/ingress/metric/collectors\<close>.

  The vectors of the prometheus client are a parameter, the record \<open>vec_lib\<close>; \<open>vec_laws\<close> states what is
  documented of labels (\<open>vars v\<close> is the set of label names of \<open>v\<close> that have no value yet). A \<open>Must\<close>
  function panics where its counterpart returns an error.
\<close>

section \<open>Model\<close>

type_synonym labels = "(string, string) go_map"

record ('v, 'm) vec_lib =
  vl_New :: "string \<Rightarrow> string \<Rightarrow> labels \<Rightarrow> string list \<Rightarrow> 'v"
  vl_CurryWith :: "labels \<Rightarrow> 'v \<Rightarrow> 'v or_error"
  vl_GetMetricWith :: "labels \<Rightarrow> 'v \<Rightarrow> 'm or_error"

definition MustCurryWith :: "('v, 'm) vec_lib \<Rightarrow> labels \<Rightarrow> 'v \<Rightarrow> 'v res" where
  "MustCurryWith lib ls v = (case vl_CurryWith lib ls v of Inl err \<Rightarrow> Inl (PanicError err) | Inr v' \<Rightarrow> Inr v')"

definition vec_With :: "('v, 'm) vec_lib \<Rightarrow> labels \<Rightarrow> 'v \<Rightarrow> 'm res" where
  "vec_With lib ls v = (case vl_GetMetricWith lib ls v of Inl err \<Rightarrow> Inl (PanicError err) | Inr m \<Rightarrow> Inr m)"

definition PrometheusNamespace :: string where
  "PrometheusNamespace = ''wls_ingress_controller''"

definition operation :: "string list" where
  "operation = [''controller_namespace'', ''controller_class'', ''controller_pod'']"

record 'v metric_controller =
  mc_cookieAdds :: 'v
  mc_constLabels :: labels
  mc_labels :: labels
  mc_leaderElection :: 'v

definition NewController :: "('v, 'm) vec_lib \<Rightarrow> string \<Rightarrow> string \<Rightarrow> string \<Rightarrow> 'v metric_controller" where
  "NewController lib pod namespace class =
     (let constLabels = [(''controller_namespace'', namespace), (''controller_class'', class), (''controller_pod'', pod)]
      in \<lparr>mc_cookieAdds = vl_New lib PrometheusNamespace ''cookie_adds'' [] operation,
          mc_constLabels = constLabels,
          mc_labels = [(''namespace'', namespace), (''class'', class)],
          mc_leaderElection = vl_New lib PrometheusNamespace ''leader_election_status'' constLabels [''name'']\<rparr>)"

text \<open>\<open>NewCollector\<close>; the registry it keeps is the argument of \<open>Start_collector\<close> and \<open>Stop_collector\<close>.\<close>

definition NewCollector :: "('v, 'm) vec_lib \<Rightarrow> (string \<Rightarrow> string) \<Rightarrow> string \<Rightarrow> 'v metric_controller" where
  "NewCollector lib getenv ingressClass =
     (let podNamespace = (if getenv ''POD_NAMESPACE'' = '''' then ''default'' else getenv ''POD_NAMESPACE'');
          podName = getenv ''POD_NAME''
      in NewController lib podName podNamespace ingressClass)"

text \<open>The counter that is to be incremented.\<close>

definition IncCookieCount :: "('v, 'm) vec_lib \<Rightarrow> 'v metric_controller \<Rightarrow> string \<Rightarrow> string \<Rightarrow> 'm res" where
  "IncCookieCount lib cm namespace name =
     bind_res (MustCurryWith lib (mc_constLabels cm) (mc_cookieAdds cm)) (\<lambda>v.
       vec_With lib [(''namespace'', namespace), (''ingress'', name)] v)"

text \<open>The gauge that the leader election sets, and the vectors that the registry gets to see.\<close>

definition leader_gauge :: "('v, 'm) vec_lib \<Rightarrow> 'v metric_controller \<Rightarrow> string \<Rightarrow> 'm res" where
  "leader_gauge lib cm electionID = vec_With lib [(''name'', electionID)] (mc_leaderElection cm)"

definition Collect :: "'v metric_controller \<Rightarrow> 'v list" where
  "Collect cm = [mc_cookieAdds cm]"

definition Describe :: "'v metric_controller \<Rightarrow> 'v list" where
  "Describe cm = [mc_cookieAdds cm]"

text \<open>
  The registry of the prometheus client: \<open>Register\<close> takes a collector by what it describes and
  collects, and returns an error when one of its descriptions is registered already.
\<close>

record ('v, 'g) registry_lib =
  rg_Register :: "'v list \<Rightarrow> 'v list \<Rightarrow> 'g \<Rightarrow> go_error option \<times> 'g"
  rg_Unregister :: "'v list \<Rightarrow> 'g \<Rightarrow> bool \<times> 'g"

definition MustRegister :: "('v, 'g) registry_lib \<Rightarrow> 'v list \<Rightarrow> 'v list \<Rightarrow> 'g \<Rightarrow> 'g res" where
  "MustRegister rl ds cs g = (case rg_Register rl ds cs g of
     (Some err, _) \<Rightarrow> Inl (PanicError err)
   | (None, g') \<Rightarrow> Inr g')"

definition Start_collector :: "('v, 'g) registry_lib \<Rightarrow> 'v metric_controller \<Rightarrow> 'g \<Rightarrow> 'g res" where
  "Start_collector rl cm g = MustRegister rl (Describe cm) (Collect cm) g"

definition Stop_collector :: "('v, 'g) registry_lib \<Rightarrow> 'v metric_controller \<Rightarrow> 'g \<Rightarrow> 'g" where
  "Stop_collector rl cm g = snd (rg_Unregister rl (Describe cm) g)"

text \<open>
  The metrics as \<open>main\<close> sets them up, on the new registry \<open>g\<close>; \<open>goc\<close> and \<open>proc\<close> are what the collectors
  for the Go runtime and for the process describe and collect.
\<close>

definition main_metrics ::
  "('v, 'g) registry_lib \<Rightarrow> ('v, 'm) vec_lib \<Rightarrow> (string \<Rightarrow> string) \<Rightarrow> string \<Rightarrow> 'v list \<Rightarrow> 'v list \<Rightarrow> 'g
     \<Rightarrow> ('v metric_controller \<times> 'g) res" where
  "main_metrics rl lib getenv ingressClass goc proc g =
     bind_res (MustRegister rl goc goc g) (\<lambda>g1.
     bind_res (MustRegister rl proc proc g1) (\<lambda>g2.
       let mc = NewCollector lib getenv ingressClass in
       bind_res (Start_collector rl mc g2) (\<lambda>g3. Inr (mc, g3))))"

section \<open>Documented behaviour of labels and registries\<close>

definition vec_laws :: "('v, 'm) vec_lib \<Rightarrow> ('v \<Rightarrow> string set) \<Rightarrow> bool" where
  "vec_laws lib vars \<longleftrightarrow>
     (\<forall>ns name cls vs. vars (vl_New lib ns name cls vs) = set vs) \<and>
     (\<forall>ls v. fst ` set ls \<subseteq> vars v \<longrightarrow> (\<exists>v'. vl_CurryWith lib ls v = Inr v' \<and> vars v' = vars v - fst ` set ls)) \<and>
     (\<forall>ls v. if fst ` set ls = vars v then (\<exists>m. vl_GetMetricWith lib ls v = Inr m)
             else (\<exists>err. vl_GetMetricWith lib ls v = Inl err))"

lemma vec_lawsD:
  assumes "vec_laws lib vars"
  shows "vars (vl_New lib ns name cls vs) = set vs"
    and "fst ` set ls \<subseteq> vars v \<Longrightarrow> \<exists>v'. vl_CurryWith lib ls v = Inr v' \<and> vars v' = vars v - fst ` set ls"
    and "fst ` set ls = vars v \<Longrightarrow> \<exists>m. vl_GetMetricWith lib ls v = Inr m"
    and "fst ` set ls \<noteq> vars v \<Longrightarrow> \<exists>err. vl_GetMetricWith lib ls v = Inl err"
  using assms unfolding vec_laws_def by (simp, simp, metis, metis)

text \<open>\<open>exported g\<close> is what gathering from \<open>g\<close> yields.\<close>

definition registry_laws :: "('v, 'g) registry_lib \<Rightarrow> ('g \<Rightarrow> 'v set) \<Rightarrow> bool" where
  "registry_laws rl exported \<longleftrightarrow>
     (\<forall>ds cs g. set ds \<inter> exported g = {} \<longrightarrow> fst (rg_Register rl ds cs g) = None \<and>
        exported (snd (rg_Register rl ds cs g)) = exported g \<union> set cs) \<and>
     (\<forall>ds cs g. set ds \<inter> exported g \<noteq> {} \<longrightarrow> fst (rg_Register rl ds cs g) \<noteq> None) \<and>
     (\<forall>ds g. exported (snd (rg_Unregister rl ds g)) = exported g - set ds)"

lemma MustRegister_result:
  assumes "registry_laws rl exported"
  shows "set ds \<inter> exported g = {} \<Longrightarrow> \<exists>g'. MustRegister rl ds cs g = Inr g' \<and> exported g' = exported g \<union> set cs"
    and "set ds \<inter> exported g \<noteq> {} \<Longrightarrow> \<exists>err. MustRegister rl ds cs g = Inl (PanicError err)"
proof -
  have r: "set ds \<inter> exported g = {} \<Longrightarrow> fst (rg_Register rl ds cs g) = None \<and>
        exported (snd (rg_Register rl ds cs g)) = exported g \<union> set cs"
    "set ds \<inter> exported g \<noteq> {} \<Longrightarrow> fst (rg_Register rl ds cs g) \<noteq> None"
    using assms by (simp_all add: registry_laws_def)
  obtain e g' where g: "rg_Register rl ds cs g = (e, g')" by (cases "rg_Register rl ds cs g")
  show "set ds \<inter> exported g = {} \<Longrightarrow> \<exists>g'. MustRegister rl ds cs g = Inr g' \<and> exported g' = exported g \<union> set cs"
    using r(1) g by (simp add: MustRegister_def)
  show "set ds \<inter> exported g \<noteq> {} \<Longrightarrow> \<exists>err. MustRegister rl ds cs g = Inl (PanicError err)"
    using r(2) g by (auto simp: MustRegister_def split: option.splits)
qed

text \<open>
  Starting the collector twice panics; started once it exports the counter of cookies and not the
  gauge of the election, and \<open>Stop\<close> takes the counter back.
\<close>

lemma Start_collector_exports:
  assumes "registry_laws rl exported" and "mc_cookieAdds cm \<notin> exported g"
  shows "\<exists>g'. Start_collector rl cm g = Inr g' \<and> exported g' = insert (mc_cookieAdds cm) (exported g) \<and>
     (\<exists>err. Start_collector rl cm g' = Inl (PanicError err)) \<and> exported (Stop_collector rl cm g') = exported g"
proof -
  have s: "set (Describe cm) = {mc_cookieAdds cm}" "set (Collect cm) = {mc_cookieAdds cm}"
    by (simp_all add: Describe_def Collect_def)
  obtain g' where g': "Start_collector rl cm g = Inr g'" "exported g' = insert (mc_cookieAdds cm) (exported g)"
    using MustRegister_result(1)[OF assms(1), of "Describe cm" g "Collect cm"] assms(2)
    by (auto simp: Start_collector_def s)
  moreover have "\<exists>err. Start_collector rl cm g' = Inl (PanicError err)"
    unfolding Start_collector_def by (rule MustRegister_result(2)[OF assms(1)]) (simp add: s g'(2))
  moreover have "exported (Stop_collector rl cm g') = exported g' - set (Describe cm)"
    using assms(1) by (simp add: registry_laws_def Stop_collector_def)
  ultimately show ?thesis using assms(2) by (auto simp: s)
qed

text \<open>On a new registry \<open>main\<close> sets up its metrics without a panic, and the gauge is not among them.\<close>

lemma main_metrics_exports:
  assumes "registry_laws rl exported" and "exported g = {}" and "set goc \<inter> set proc = {}"
    and "mc_cookieAdds (NewCollector lib getenv cls) \<notin> set goc \<union> set proc"
  shows "\<exists>g'. main_metrics rl lib getenv cls goc proc g = Inr (NewCollector lib getenv cls, g') \<and>
     exported g' = insert (mc_cookieAdds (NewCollector lib getenv cls)) (set goc \<union> set proc)"
proof -
  let ?mc = "NewCollector lib getenv cls"
  obtain g1 where g1: "MustRegister rl goc goc g = Inr g1" "exported g1 = set goc"
    using MustRegister_result(1)[OF assms(1), of goc g goc] assms(2) by auto
  obtain g2 where g2: "MustRegister rl proc proc g1 = Inr g2" "exported g2 = set goc \<union> set proc"
    using MustRegister_result(1)[OF assms(1), of proc g1 proc] assms(3) g1(2) by (auto simp: Int_commute)
  obtain g3 where g3: "Start_collector rl ?mc g2 = Inr g3" "exported g3 = insert (mc_cookieAdds ?mc) (exported g2)"
    using Start_collector_exports[OF assms(1), of ?mc g2] assms(4) g2(2) by auto
  from g1(1) g2(1) g3 g2(2) show ?thesis by (simp add: main_metrics_def Let_def)
qed

section \<open>Properties\<close>

text \<open>The counter of cookies cannot be used. Whatever the environment, setting the gauge of the
  leader election succeeds, but counting a cookie panics: all labels of the counter are fixed by
  the constant labels, and the two given then are not labels of it.\<close>

lemma IncCookieCount_panics:
  assumes "vec_laws lib vars"
  shows "(\<exists>err. IncCookieCount lib (NewCollector lib getenv cls) namespace name = Inl (PanicError err)) \<and>
     (\<exists>m. leader_gauge lib (NewCollector lib getenv cls) electionID = Inr m)"
proof -
  let ?cm = "NewCollector lib getenv cls"
  have c: "mc_cookieAdds ?cm = vl_New lib PrometheusNamespace ''cookie_adds'' [] operation"
    "fst ` set (mc_constLabels ?cm) = set operation"
    by (simp_all add: NewCollector_def NewController_def Let_def operation_def insert_commute)
  have vars: "vars (mc_cookieAdds ?cm) = set operation" unfolding c(1) by (rule vec_lawsD(1)[OF assms])
  have "fst ` set (mc_constLabels ?cm) \<subseteq> vars (mc_cookieAdds ?cm)" unfolding c(2) vars ..
  from vec_lawsD(2)[OF assms this] obtain v where
    v: "vl_CurryWith lib (mc_constLabels ?cm) (mc_cookieAdds ?cm) = Inr v" "vars v = {}"
    unfolding c(2) vars Diff_cancel by blast
  have "fst ` set [(''namespace'', namespace), (''ingress'', name)] \<noteq> vars v" unfolding v(2) by simp
  from vec_lawsD(4)[OF assms this] obtain err where
    "vl_GetMetricWith lib [(''namespace'', namespace), (''ingress'', name)] v = Inl err" by blast
  with v(1) have 1: "IncCookieCount lib ?cm namespace name = Inl (PanicError err)"
    by (simp add: IncCookieCount_def MustCurryWith_def vec_With_def)
  have "fst ` set [(''name'', electionID)] = vars (mc_leaderElection ?cm)"
    by (simp add: NewCollector_def NewController_def Let_def vec_lawsD(1)[OF assms])
  from vec_lawsD(3)[OF assms this] obtain m where
    "vl_GetMetricWith lib [(''name'', electionID)] (mc_leaderElection ?cm) = Inr m" by blast
  then have "leader_gauge lib ?cm electionID = Inr m" by (simp add: leader_gauge_def vec_With_def)
  with 1 show ?thesis by blast
qed

text \<open>An instance: a vector is the list of its open label names.\<close>

definition example_vec_lib :: "(string list, unit) vec_lib" where
  "example_vec_lib = \<lparr>vl_New = (\<lambda>ns name cls vs. vs),
     vl_CurryWith = (\<lambda>ls v. if list_all (\<lambda>l. fst l \<in> set v) ls then Inr (filter (\<lambda>n. n \<notin> fst ` set ls) v)
        else Inl ''label name not found''),
     vl_GetMetricWith = (\<lambda>ls v. if fst ` set ls = set v then Inr () else Inl ''inconsistent label cardinality'')\<rparr>"

end
