(* ===== verification/GoJson.thy ===== *)
theory GoJson
  imports GoStrings
begin

text \<open>
  \<open>json.Marshal\<close> of Go's \<open>encoding/json\<close> on a string, and what its result means: the decoder \<open>json_decode\<close>
  reads a JSON string as RFC 8259 defines it, for the code points of the basic plane. A string is a
  sequence of bytes; \<open>rune_len\<close> is the number of bytes of the code point at its front in UTF-8, 0
  when there is none.
\<close>

section \<open>UTF-8\<close>

definition byte :: "char \<Rightarrow> int" where
  "byte c = of_char c"

definition byte_in :: "int \<Rightarrow> int \<Rightarrow> char \<Rightarrow> bool" where
  "byte_in lo hi c \<longleftrightarrow> lo \<le> byte c \<and> byte c \<le> hi"

definition trailing :: "char list \<Rightarrow> nat \<Rightarrow> int \<Rightarrow> int \<Rightarrow> bool" where
  "trailing s n lo hi \<longleftrightarrow> n \<le> length s \<and> byte_in lo hi (s ! 0) \<and> list_all (byte_in 0x80 0xBF) (take n s)"

fun rune_len :: "string \<Rightarrow> nat" where
  "rune_len [] = 0"
| "rune_len (a # s) =
     (if byte a < 0x80 then 1
      else if byte_in 0xC2 0xDF a then (if trailing s 1 0x80 0xBF then 2 else 0)
      else if byte_in 0xE0 0xEF a then
        (if trailing s 2 (if byte a = 0xE0 then 0xA0 else 0x80) (if byte a = 0xED then 0x9F else 0xBF) then 3 else 0)
      else if byte_in 0xF0 0xF4 a then
        (if trailing s 3 (if byte a = 0xF0 then 0x90 else 0x80) (if byte a = 0xF4 then 0x8F else 0xBF) then 4 else 0)
      else 0)"

declare rune_len.simps(2) [simp del]

fun valid_utf8 :: "string \<Rightarrow> bool" where
  "valid_utf8 [] = True"
| "valid_utf8 (c # cs) = (rune_len (c # cs) \<noteq> 0 \<and> valid_utf8 (drop (rune_len (c # cs) - 1) cs))"

definition utf8_encode :: "int \<Rightarrow> string" where
  "utf8_encode n =
     (if n < 0x80 then [char_of n]
      else if n < 0x800 then [char_of (0xC0 + n div 64), char_of (0x80 + n mod 64)]
      else [char_of (0xE0 + n div 4096), char_of (0x80 + n div 64 mod 64), char_of (0x80 + n mod 64)])"

section \<open>The encoder\<close>

text \<open>A byte below 0x80, with the characters that HTML gives a meaning escaped as well.\<close>

definition json_char :: "char \<Rightarrow> string" where
  "json_char c =
     (if c = CHR 0x22 then [CHR 0x5C, CHR 0x22]
      else if c = CHR 0x5C then [CHR 0x5C, CHR 0x5C]
      else if c = CHR 0x0A then [CHR 0x5C, CHR ''n'']
      else if c = CHR 0x0D then [CHR 0x5C, CHR ''r'']
      else if c = CHR 0x09 then [CHR 0x5C, CHR ''t'']
      else if byte c < 0x20 \<or> c \<in> set ''<>&''
      then [CHR 0x5C, CHR ''u'', CHR ''0'', CHR ''0'', hex_digit (byte c div 16), hex_digit (byte c mod 16)]
      else [c])"

fun json_escape :: "string \<Rightarrow> string" where
  "json_escape [] = []"
| "json_escape (c # cs) =
     (if byte c < 0x80 then json_char c @ json_escape cs
      else if rune_len (c # cs) = 0 then CHR 0x5C # ''ufffd'' @ json_escape cs
      else if take 3 (c # cs) = [CHR 0xE2, CHR 0x80, CHR 0xA8] then CHR 0x5C # ''u2028'' @ json_escape (drop 2 cs)
      else if take 3 (c # cs) = [CHR 0xE2, CHR 0x80, CHR 0xA9] then CHR 0x5C # ''u2029'' @ json_escape (drop 2 cs)
      else take (rune_len (c # cs)) (c # cs) @ json_escape (drop (rune_len (c # cs) - 1) cs))"

definition json_Marshal_string :: "string \<Rightarrow> string" where
  "json_Marshal_string s = [CHR 0x22] @ json_escape s @ [CHR 0x22]"

section \<open>The decoder\<close>

definition unescape_char :: "char \<Rightarrow> char option" where
  "unescape_char c = map_of [(CHR 0x22, CHR 0x22), (CHR 0x5C, CHR 0x5C), (CHR ''/'', CHR ''/''), (CHR ''b'', CHR 0x08),
     (CHR ''f'', CHR 0x0C), (CHR ''n'', CHR 0x0A), (CHR ''r'', CHR 0x0D), (CHR ''t'', CHR 0x09)] c"

definition hex_number :: "string \<Rightarrow> int" where
  "hex_number ds = foldl (\<lambda>n c. 16 * n + hex_digit_val c) 0 ds"

fun json_unescape :: "string \<Rightarrow> string option" where
  "json_unescape [] = Some []"
| "json_unescape (c # s) =
     (if c = CHR 0x5C then
        (case s of
           [] \<Rightarrow> None
         | e # s' \<Rightarrow>
             if e = CHR ''u'' then
               (if 4 \<le> length s' \<and> list_all is_hex (take 4 s')
                then map_option (append (utf8_encode (hex_number (take 4 s')))) (json_unescape (drop 4 s')) else None)
             else (case unescape_char e of None \<Rightarrow> None | Some d \<Rightarrow> map_option (Cons d) (json_unescape s')))
      else if c = CHR 0x22 \<or> byte c < 0x20 then None
      else map_option (Cons c) (json_unescape s))"

definition json_decode :: "string \<Rightarrow> string option" where
  "json_decode s = (if 2 \<le> length s \<and> hd s = CHR 0x22 \<and> last s = CHR 0x22 then json_unescape (butlast (tl s)) else None)"

section \<open>Decoding what was encoded\<close>

lemma byte_char_of [simp]: "0 \<le> n \<Longrightarrow> n < 256 \<Longrightarrow> byte (char_of n) = n"
  by (simp add: byte_def)

lemma char_of_byte [simp]: "char_of (byte c) = c"
  by (simp add: byte_def)

text \<open>The bytes of a longer rune are all above ASCII, and the decoder copies those.\<close>

lemma rune_len_bytes:
  assumes "0x80 \<le> byte c"
  shows "\<forall>b \<in> set (take (rune_len (c # cs)) (c # cs)). 0x80 \<le> byte b"
proof -
  have "\<forall>b \<in> set (take n s). 0x80 \<le> byte b" if "trailing s n lo hi" for s n lo hi
    using that by (auto simp: trailing_def list_all_iff byte_in_def)
  note t = this[of cs]
  show ?thesis using assms t by (auto simp: rune_len.simps numeral_eq_Suc take_Cons' split: if_splits)
qed

lemma map_option_append_Nil [simp]: "map_option (append []) x = x"
  by (cases x) simp_all

lemma json_unescape_copy:
  "\<forall>b \<in> set xs. 0x80 \<le> byte b \<Longrightarrow> json_unescape (xs @ s) = map_option (append xs) (json_unescape s)"
proof (induction xs)
  case (Cons x xs)
  have "byte (CHR 0x5C) = 0x5C" "byte (CHR 0x22) = 0x22" by (simp_all add: byte_def)
  with Cons show ?case by (auto simp: option.map_comp comp_def)
qed simp

lemma hex_digit_val:
  assumes "0 \<le> n" "n < 16"
  shows "is_hex (hex_digit n)" and "hex_digit_val (hex_digit n) = n"
proof -
  have "\<forall>d \<in> set [0..15]. is_hex (hex_digit d) \<and> hex_digit_val (hex_digit d) = d" by code_simp
  moreover from assms have "n \<in> set [0..15]" by simp
  ultimately show "is_hex (hex_digit n)" and "hex_digit_val (hex_digit n) = n" by blast+
qed

lemma json_unescape_char:
  assumes "byte c < 0x80"
  shows "json_unescape (json_char c @ s) = map_option (Cons c) (json_unescape s)"
proof (cases "c \<in> {CHR 0x22, CHR 0x5C, CHR 0x0A, CHR 0x0D, CHR 0x09}")
  case True
  then show ?thesis by (auto simp: json_char_def unescape_char_def)
next
  case False
  show ?thesis
  proof (cases "byte c < 0x20 \<or> c \<in> set ''<>&''")
    case True
    have b: "0 \<le> byte c" by (simp add: byte_def of_char_def)
    with assms have d: "0 \<le> byte c div 16" "byte c div 16 < 16" "0 \<le> byte c mod 16" "byte c mod 16 < 16" by simp_all
    have z: "is_hex (CHR ''0'')" "hex_digit_val (CHR ''0'') = 0" by code_simp+
    have "utf8_encode (byte c) = [c]" using assms by (simp add: utf8_encode_def)
    moreover have "map_option (append [c]) x = map_option (Cons c) x" for x by (cases x) simp_all
    ultimately show ?thesis
      using True False z hex_digit_val[OF d(1,2)] hex_digit_val[OF d(3,4)] by (simp add: json_char_def hex_number_def)
  next
    case plain: False
    with False show ?thesis by (simp add: json_char_def)
  qed
qed

lemma json_unescape_escape:
  "valid_utf8 s \<Longrightarrow> json_unescape (json_escape s @ t) = map_option (append s) (json_unescape t)"
proof (induction s rule: json_escape.induct)
  case 1
  then show ?case by (simp add: option.map_ident)
next
  case (2 c cs)
  show ?case
  proof (cases "byte c < 0x80")
    case True
    then have "rune_len (c # cs) = 1" by (simp add: rune_len.simps)
    with 2 True show ?thesis by (simp add: json_unescape_char option.map_comp comp_def)
  next
    case False
    let ?n = "rune_len (c # cs)"
    have n: "?n \<noteq> 0" "valid_utf8 (drop (?n - 1) cs)" using 2(6) by simp_all
    have split: "take ?n (c # cs) @ drop (?n - 1) cs = c # cs"
      using n(1) append_take_drop_id[of ?n "c # cs"] by (simp add: drop_Cons' del: append_take_drop_id)
    show ?thesis
    proof (cases "\<exists>d \<in> {CHR 0xA8, CHR 0xA9}. take 3 (c # cs) = [CHR 0xE2, CHR 0x80, d]")
      case True
      then obtain d where d: "d \<in> {CHR 0xA8, CHR 0xA9}" "take 3 (c # cs) = [CHR 0xE2, CHR 0x80, d]" by blast
      then obtain r where r: "c # cs = CHR 0xE2 # CHR 0x80 # d # r"
        by (metis append_Cons append_Nil append_take_drop_id)
      have "?n = 3" unfolding r using d(1) by (auto simp: rune_len.simps trailing_def byte_in_def byte_def)
      with n(2) r have v: "valid_utf8 r" by simp
      have ih: "json_unescape (json_escape r @ t) = map_option (append r) (json_unescape t)"
        using 2(3,4) False n(1) v r d by auto
      have dr: "drop 2 cs = r" "\<not> byte c < 128" using r False by simp_all
      note esc = json_escape.simps(2)[of c cs, unfolded if_not_P[OF dr(2)] if_not_P[OF n(1)] d(2) dr(1)]
      from d(1) show ?thesis
      proof (elim insertE emptyE)
        assume d: "d = CHR 0xA8"
        have e: "json_escape (c # cs) = CHR 0x5C # ''u2028'' @ json_escape r" by (subst esc) (simp add: d)
        have u: "utf8_encode (hex_number ''2028'') = [CHR 0xE2, CHR 0x80, CHR 0xA8]" "list_all is_hex ''2028''" by code_simp+
        show ?thesis unfolding e unfolding r d using ih u by (simp add: option.map_comp comp_def del: json_escape.simps)
      next
        assume d: "d = CHR 0xA9"
        have e: "json_escape (c # cs) = CHR 0x5C # ''u2029'' @ json_escape r" by (subst esc) (simp add: d)
        have u: "utf8_encode (hex_number ''2029'') = [CHR 0xE2, CHR 0x80, CHR 0xA9]" "list_all is_hex ''2029''" by code_simp+
        show ?thesis unfolding e unfolding r d using ih u by (simp add: option.map_comp comp_def del: json_escape.simps)
      qed
    next
      case other: False
      then have e: "json_escape (c # cs) = take ?n (c # cs) @ json_escape (drop (?n - 1) cs)"
        using False n(1) by auto
      have "json_unescape (json_escape (drop (?n - 1) cs) @ t) = map_option (append (drop (?n - 1) cs)) (json_unescape t)"
        using 2(5) False n other by simp
      moreover have "json_unescape (take ?n (c # cs) @ s) = map_option (append (take ?n (c # cs))) (json_unescape s)" for s
        using json_unescape_copy[OF rune_len_bytes, of c cs] False by simp
      ultimately have "json_unescape (json_escape (c # cs) @ t) =
          map_option (\<lambda>a. (take ?n (c # cs) @ drop (?n - 1) cs) @ a) (json_unescape t)"
        unfolding e append_assoc by (simp add: option.map_comp comp_def)
      then show ?thesis unfolding split .
    qed
  qed
qed

text \<open>A JSON string that encodes valid UTF-8 decodes to it.\<close>

lemma json_decode_Marshal:
  assumes "valid_utf8 s"
  shows "json_decode (json_Marshal_string s) = Some s"
  using json_unescape_escape[OF assms, of "[]"] by (simp add: json_decode_def json_Marshal_string_def butlast_append)

lemma valid_utf8_ascii: "\<forall>c \<in> set s. byte c < 0x80 \<Longrightarrow> valid_utf8 s"
  by (induction s) (simp_all add: rune_len.simps)

lemma rune_len_append:
  assumes "rune_len s \<noteq> 0"
  shows "rune_len (s @ t) = rune_len s \<and> rune_len s \<le> length s"
proof -
  have tr: "trailing u n lo hi \<Longrightarrow> 0 < n \<Longrightarrow> trailing (u @ t) n lo hi"
    "trailing u n lo hi \<Longrightarrow> n \<le> length u" for u n lo hi
    by (auto simp: trailing_def nth_append)
  from assms obtain a u where s: "s = a # u" by (cases s) auto
  consider (one) "byte a < 0x80" | (two) "\<not> byte a < 0x80" "byte_in 0xC2 0xDF a"
    | (three) "\<not> byte a < 0x80" "\<not> byte_in 0xC2 0xDF a" "byte_in 0xE0 0xEF a"
    | (four) "\<not> byte a < 0x80" "\<not> byte_in 0xC2 0xDF a" "\<not> byte_in 0xE0 0xEF a" using assms s by blast
  then show ?thesis
  proof cases
    case one
    then show ?thesis by (simp add: s rune_len.simps)
  next
    case two
    with assms have "trailing u 1 0x80 0xBF" by (simp add: s rune_len.simps split: if_splits)
    with two tr[OF this] show ?thesis by (simp add: s rune_len.simps)
  next
    case three
    with assms have "trailing u 2 (if byte a = 0xE0 then 0xA0 else 0x80) (if byte a = 0xED then 0x9F else 0xBF)"
      by (simp only: s rune_len.simps if_False if_True split: if_split_asm)
    with three tr[OF this] show ?thesis by (simp only: s rune_len.simps append_Cons if_False if_True) simp
  next
    case four
    with assms have b: "byte_in 0xF0 0xF4 a" by (simp add: s rune_len.simps split: if_splits)
    with four assms have "trailing u 3 (if byte a = 0xF0 then 0x90 else 0x80) (if byte a = 0xF4 then 0x8F else 0xBF)"
      by (simp only: s rune_len.simps if_False if_True split: if_split_asm)
    with four b tr[OF this] show ?thesis by (simp only: s rune_len.simps append_Cons if_False if_True) simp
  qed
qed

lemma valid_utf8_append: "valid_utf8 a \<Longrightarrow> valid_utf8 b \<Longrightarrow> valid_utf8 (a @ b)"
proof (induction a rule: valid_utf8.induct)
  case (2 c cs)
  let ?n = "rune_len (c # cs)"
  from 2(2) have "?n \<noteq> 0" by simp
  from rune_len_append[OF this, of b] have "rune_len (c # cs @ b) = ?n" "?n - 1 \<le> length cs" by auto
  with 2 \<open>?n \<noteq> 0\<close> show ?case by simp
qed simp

end
