(* ===== verification/HealthServer.thy ===== *)
theory HealthServer
  imports GoHttp GoJson
begin

text \<open>
  The second HTTP server of the process: the \<open>ServeMux\<close> that \<open>main\<close> fills with the handlers of
  \<open>registerHealthz\<close>, \<open>registerMetrics\<close> and \<open>registerHandlers\<close> (\<open>cmd/wls/main.go\<close>), the text of
  \<open>version/version.go\<close>, and the parameters of the two servers (\<open>startHTTPServer\<close>, and the listener of
  \<open>controller/wls.go\<close>).

  The handlers of the health checks and of the metrics come from libraries: \<open>install\<close> is
  \<open>healthz.InstallHandler\<close> with the ping check, \<open>prom\<close> the handler of \<open>promhttp\<close>. A handler is what it does
  to the response writer.
\<close>

section \<open>Model\<close>

type_synonym handler = "response_writer \<Rightarrow> response_writer"

text \<open>\<open>http.ServeMux\<close>: the patterns in the order of their registration; \<open>match\<close> on a clean path.\<close>

type_synonym serve_mux = "(string, handler) go_map"

definition mux_Handle :: "string \<Rightarrow> handler \<Rightarrow> serve_mux \<Rightarrow> serve_mux res" where
  "mux_Handle pattern h m =
     (if pattern = '''' then Inl (PanicError ''http: invalid pattern'')
      else if map_of m pattern \<noteq> None then Inl (PanicError (''http: multiple registrations for '' @ pattern))
      else Inr (m @ [(pattern, h)]))"

definition mux_match :: "serve_mux \<Rightarrow> string \<Rightarrow> handler option" where
  "mux_match m path =
     (case map_of m path of
        Some h \<Rightarrow> Some h
      | None \<Rightarrow> map_option snd (find (\<lambda>e. HasPrefix path (fst e))
          (rev (sort_key (\<lambda>e. length (fst e)) (filter (\<lambda>e. last (fst e) = CHR ''/'') m)))))"

definition mux_serve :: "serve_mux \<Rightarrow> string \<Rightarrow> handler" where
  "mux_serve m path w =
     (case mux_match m path of Some h \<Rightarrow> h w | None \<Rightarrow> http_Error ''404 page not found'' 404 w)"

record build_info =
  bi_RELEASE :: string
  bi_REPO :: string
  bi_COMMIT :: string

text \<open>The values without a build that sets them, and \<open>version.String\<close>.\<close>

definition unknown_build :: build_info where
  "unknown_build = \<lparr>bi_RELEASE = ''UNKNOWN'', bi_REPO = ''UNKNOWN'', bi_COMMIT = ''UNKNOWN''\<rparr>"

definition version_String :: "build_info \<Rightarrow> string" where
  "version_String b =
     replicate 79 (CHR ''-'') @ [CHR 0x0A]
     @ ''WLS Ingress controller'' @ [CHR 0x0A]
     @ ''  Release:    '' @ bi_RELEASE b @ [CHR 0x0A]
     @ ''  Build:      '' @ bi_COMMIT b @ [CHR 0x0A]
     @ ''  Repository: '' @ bi_REPO b @ [CHR 0x0A]
     @ replicate 79 (CHR ''-'') @ [CHR 0x0A]"

definition build_handler :: "build_info \<Rightarrow> handler" where
  "build_handler b w =
     (let w1 = WriteHeader 200 w in w1\<lparr>rw_body := rw_body w1 @ [json_Marshal_string (version_String b)]\<rparr>)"

definition registerHandlers :: "build_info \<Rightarrow> serve_mux \<Rightarrow> serve_mux res" where
  "registerHandlers b m = mux_Handle ''/build'' (build_handler b) m"

definition registerHealthz :: "(serve_mux \<Rightarrow> serve_mux res) \<Rightarrow> serve_mux \<Rightarrow> serve_mux res" where
  "registerHealthz install m = install m"

definition registerMetrics :: "handler \<Rightarrow> serve_mux \<Rightarrow> serve_mux res" where
  "registerMetrics prom m = mux_Handle ''/metrics'' prom m"

text \<open>The mux as \<open>main\<close> builds it.\<close>

definition main_mux :: "(serve_mux \<Rightarrow> serve_mux res) \<Rightarrow> handler \<Rightarrow> build_info \<Rightarrow> serve_mux res" where
  "main_mux install prom b =
     bind_res (registerHealthz install []) (\<lambda>m. bind_res (registerMetrics prom m) (registerHandlers b))"

text \<open>Durations in nanoseconds.\<close>

record http_server =
  hs_Addr :: string
  hs_ReadTimeout :: int
  hs_ReadHeaderTimeout :: int
  hs_WriteTimeout :: int
  hs_IdleTimeout :: int

definition health_server :: "int \<Rightarrow> http_server" where
  "health_server port = \<lparr>hs_Addr = '':'' @ Itoa port, hs_ReadTimeout = 10 * 10 ^ 9, hs_ReadHeaderTimeout = 10 * 10 ^ 9,
     hs_WriteTimeout = 300 * 10 ^ 9, hs_IdleTimeout = 120 * 10 ^ 9\<rparr>"

definition proxy_server :: http_server where
  "proxy_server = \<lparr>hs_Addr = '':'' @ Itoa 8080, hs_ReadTimeout = 180 * 10 ^ 9, hs_ReadHeaderTimeout = 180 * 10 ^ 9,
     hs_WriteTimeout = 180 * 10 ^ 9, hs_IdleTimeout = 300 * 10 ^ 9\<rparr>"

text \<open>The error with which \<open>ListenAndServe\<close> returns ends the process.\<close>

definition startHTTPServer :: "(http_server \<Rightarrow> serve_mux \<Rightarrow> go_error) \<Rightarrow> int \<Rightarrow> serve_mux \<Rightarrow> go_error" where
  "startHTTPServer listenAndServe port m = listenAndServe (health_server port) m"

section \<open>Documented behaviour of the health checks\<close>

text \<open>
  \<open>InstallHandler\<close> registers handlers at \<open>/healthz\<close> and below; \<open>hs\<close> are those it adds, none of which is
  a subtree.
\<close>

definition healthz_laws :: "(serve_mux \<Rightarrow> serve_mux res) \<Rightarrow> serve_mux \<Rightarrow> bool" where
  "healthz_laws install hs \<longleftrightarrow> install [] = Inr hs \<and> distinct (map fst hs) \<and> ''/healthz'' \<in> fst ` set hs \<and>
     (\<forall>p \<in> fst ` set hs. HasPrefix p ''/healthz'' \<and> last p \<noteq> CHR ''/'')"

section \<open>Routing\<close>

lemma mux_match_exact:
  assumes "\<forall>e \<in> set m. last (fst e) \<noteq> CHR ''/''"
  shows "mux_match m path = map_of m path"
proof -
  have "filter (\<lambda>e. last (fst e) = CHR ''/'') m = []" using assms by (simp add: filter_empty_conv)
  then show ?thesis by (simp add: mux_match_def split: option.splits)
qed

lemma healthz_disjoint:
  assumes "healthz_laws install hs" and "p \<in> {''/metrics'', ''/build''}"
  shows "map_of hs p = None"
proof -
  have "\<not> HasPrefix p ''/healthz''" using assms(2) by (auto simp: HasPrefix_def)
  with assms(1) show ?thesis by (auto simp: healthz_laws_def map_of_eq_None_iff)
qed

lemma main_mux_ok:
  assumes "healthz_laws install hs"
  shows "main_mux install prom b = Inr (hs @ [(''/metrics'', prom), (''/build'', build_handler b)])"
    and "mux_match (hs @ [(''/metrics'', prom), (''/build'', build_handler b)]) path =
     (case map_of hs path of Some h \<Rightarrow> Some h
      | None \<Rightarrow> if path = ''/metrics'' then Some prom else if path = ''/build'' then Some (build_handler b) else None)"
proof -
  from assms have h: "install [] = Inr hs" "\<forall>p \<in> fst ` set hs. HasPrefix p ''/healthz'' \<and> last p \<noteq> CHR ''/''"
    by (simp_all add: healthz_laws_def)
  have n: "map_of hs ''/metrics'' = None" "map_of hs ''/build'' = None"
    by (simp_all add: healthz_disjoint[OF assms])
  then show "main_mux install prom b = Inr (hs @ [(''/metrics'', prom), (''/build'', build_handler b)])"
    by (simp add: main_mux_def registerHealthz_def registerMetrics_def registerHandlers_def mux_Handle_def h(1) map_add_def)
  have "\<forall>e \<in> set (hs @ [(''/metrics'', prom), (''/build'', build_handler b)]). last (fst e) \<noteq> CHR ''/''"
    using h(2) by auto
  from mux_match_exact[OF this] show "mux_match (hs @ [(''/metrics'', prom), (''/build'', build_handler b)]) path =
     (case map_of hs path of Some h \<Rightarrow> Some h
      | None \<Rightarrow> if path = ''/metrics'' then Some prom else if path = ''/build'' then Some (build_handler b) else None)"
    by (auto simp: map_add_def split: option.splits)
qed

lemma version_String_utf8:
  assumes "valid_utf8 (bi_RELEASE b)" and "valid_utf8 (bi_REPO b)" and "valid_utf8 (bi_COMMIT b)"
  shows "valid_utf8 (version_String b)"
proof -
  have "valid_utf8 (replicate 79 (CHR ''-''))" "valid_utf8 [CHR 0x0A]" "valid_utf8 ''WLS Ingress controller''"
    "valid_utf8 ''  Release:    ''" "valid_utf8 ''  Build:      ''" "valid_utf8 ''  Repository: ''"
    by (rule valid_utf8_ascii, simp add: byte_def)+
  with assms show ?thesis unfolding version_String_def by (intro valid_utf8_append)
qed

section \<open>Properties\<close>


text \<open>An instance: the handlers of the ping check.\<close>

definition example_install :: "serve_mux \<Rightarrow> serve_mux res" where
  "example_install m = bind_res (mux_Handle ''/healthz'' (WriteHeader 200) m) (mux_Handle ''/healthz/ping'' (WriteHeader 200))"


end
