(* ===== verification/FileSystem.thy ===== *)
theory FileSystem
  imports GoStrings
begin

text \<open>
  The package \<open>internal/file\<close>: the choice of the file system, and the copy of a directory into the
  in-memory file system that \<open>NewFakeFS\<close> makes for tests.

  The file systems come from a library and the operating system: they are the record \<open>fake_env\<close>.
  \<open>fe_Walk\<close> lists what \<open>filepath.Walk\<close> visits, in order: the path, whether it is a directory, and the
  error of reading it. \<open>fake_laws\<close> is what is used of the in-memory file system.
\<close>

section \<open>Model\<close>

text \<open>\<open>strings.TrimPrefix\<close>, and \<open>filepath.Clean\<close> on a Unix system.\<close>

definition TrimPrefix :: "string \<Rightarrow> string \<Rightarrow> string" where
  "TrimPrefix s p = (if HasPrefix s p then drop (length p) s else s)"

primrec clean_elements :: "bool \<Rightarrow> string list \<Rightarrow> string list \<Rightarrow> string list" where
  "clean_elements rooted [] out = out"
| "clean_elements rooted (e # es) out =
     (if e = '''' \<or> e = ''.'' then clean_elements rooted es out
      else if e = ''..'' then
        (if out \<noteq> [] \<and> last out \<noteq> ''..'' then clean_elements rooted es (butlast out)
         else if rooted then clean_elements rooted es out
         else clean_elements rooted es (out @ [''..'']))
      else clean_elements rooted es (out @ [e]))"

definition filepath_Clean :: "string \<Rightarrow> string" where
  "filepath_Clean path =
     (let rooted = HasPrefix path ''/'';
          s = (if rooted then ''/'' else '''') @ Join (clean_elements rooted (Split path ''/'') []) ''/''
      in if s = '''' then ''.'' else s)"

definition ReadWriteByUser :: int where
  "ReadWriteByUser = 6 * 64 + 6 * 8"

definition ReadByUserGroup :: int where
  "ReadByUserGroup = 6 * 64 + 4 * 8"

text \<open>The second part of the result, the error, is always nil.\<close>

definition NewLocalFS :: "'fs \<Rightarrow> 'fs or_error" where
  "NewLocalFS defaultFs = Inr defaultFs"

record ('f, 'h) fake_env =
  fe_Getenv :: "string \<Rightarrow> string"
  fe_Walk :: "string \<Rightarrow> (string \<times> bool \<times> go_error option) list"
  fe_ReadFile :: "string \<Rightarrow> string or_error"
  fe_NewFakeFs :: 'f
  fe_Create :: "string \<Rightarrow> 'f \<Rightarrow> 'h or_error \<times> 'f"
  fe_Write :: "'h \<Rightarrow> string \<Rightarrow> 'f \<Rightarrow> go_error option \<times> 'f"

definition rootFS :: "('f, 'h) fake_env \<Rightarrow> string" where
  "rootFS env = filepath_Clean (fe_Getenv env ''GOPATH'' @ ''/'' @ ''src/k8s.io/ingress-nginx/rootfs'')"

text \<open>The function handed to \<open>Walk\<close>; an error it returns ends the walk.\<close>

primrec walk_files :: "string \<Rightarrow> (string \<times> bool \<times> go_error option) list \<Rightarrow> string list \<Rightarrow> string list or_error" where
  "walk_files root [] fileList = Inr fileList"
| "walk_files root (v # vs) fileList =
     (case v of (path, isDir, err) \<Rightarrow>
       case err of
         Some e \<Rightarrow> Inl e
       | None \<Rightarrow>
           if isDir then walk_files root vs fileList
           else (let file = TrimPrefix path root in
             if file = '''' then walk_files root vs fileList
             else walk_files root vs (fileList @ [file])))"

primrec copy_files :: "('f, 'h) fake_env \<Rightarrow> string list \<Rightarrow> 'f \<Rightarrow> 'f or_error" where
  "copy_files env [] fakeFs = Inr fakeFs"
| "copy_files env (file # files) fakeFs =
     (case fe_ReadFile env (rootFS env @ file) of
        Inl err \<Rightarrow> Inl err
      | Inr data \<Rightarrow>
          (case fe_Create env file fakeFs of
             (Inl err, _) \<Rightarrow> Inl err
           | (Inr fakeFile, fs1) \<Rightarrow>
               (case fe_Write env fakeFile data fs1 of
                  (Some err, _) \<Rightarrow> Inl err
                | (None, fs2) \<Rightarrow> copy_files env files fs2)))"

definition NewFakeFS :: "('f, 'h) fake_env \<Rightarrow> 'f or_error" where
  "NewFakeFS env =
     (case walk_files (rootFS env) (fe_Walk env (rootFS env)) [] of
        Inl err \<Rightarrow> Inl err
      | Inr fileList \<Rightarrow> copy_files env fileList (fe_NewFakeFs env))"

section \<open>The copy\<close>

definition fake_laws :: "('f, 'h) fake_env \<Rightarrow> ('f \<Rightarrow> string \<rightharpoonup> string) \<Rightarrow> bool" where
  "fake_laws env view \<longleftrightarrow> view (fe_NewFakeFs env) = Map.empty \<and>
     (\<forall>file fs h fs1 data fs2. fe_Create env file fs = (Inr h, fs1) \<longrightarrow> fe_Write env h data fs1 = (None, fs2) \<longrightarrow>
        view fs2 = (view fs)(file \<mapsto> data))"

text \<open>The regular files below the root, under their paths relative to it.\<close>

definition relative_files :: "string \<Rightarrow> (string \<times> bool \<times> go_error option) list \<Rightarrow> string list" where
  "relative_files root vs = filter (\<lambda>f. f \<noteq> '''') (map (\<lambda>v. TrimPrefix (fst v) root) (filter (\<lambda>v. \<not> fst (snd v)) vs))"

lemma walk_files_result:
  "walk_files root vs acc =
     (case List.map_filter (\<lambda>v. snd (snd v)) vs of e # _ \<Rightarrow> Inl e | [] \<Rightarrow> Inr (acc @ relative_files root vs))"
proof (induction vs arbitrary: acc)
  case Nil
  then show ?case by (simp add: relative_files_def)
next
  case (Cons v vs)
  obtain path isDir err where v: "v = (path, isDir, err)" by (cases v)
  show ?case
  proof (cases err)
    case None
    with Cons v show ?thesis
      by (auto simp: relative_files_def Let_def List.map_filter_def split: list.splits)
  next
    case (Some e)
    with v show ?thesis by (simp add: List.map_filter_def)
  qed
qed

lemma copy_files_view:
  assumes "fake_laws env view"
  shows "copy_files env files fs = Inr fs' \<Longrightarrow> view fs' = (\<lambda>p. if p \<in> set files
     then (case fe_ReadFile env (rootFS env @ p) of Inr data \<Rightarrow> Some data | Inl _ \<Rightarrow> None) else view fs p)"
proof (induction files arbitrary: fs)
  case (Cons x files)
  from Cons.prems obtain data h fs1 fs2 where s: "fe_ReadFile env (rootFS env @ x) = Inr data"
    "fe_Create env x fs = (Inr h, fs1)" "fe_Write env h data fs1 = (None, fs2)" "copy_files env files fs2 = Inr fs'"
    by (auto split: sum.splits prod.splits option.splits)
  have "view fs2 = (view fs)(x \<mapsto> data)" using assms s(2,3) unfolding fake_laws_def by blast
  with Cons.IH[OF s(4)] s(1) show ?case by (auto simp: fun_eq_iff)
qed simp

text \<open>
  When \<open>NewFakeFS\<close> succeeds, every visited path could be read and the new file system has exactly the
  regular files below the root, with their contents.
\<close>

lemma NewFakeFS_copies:
  assumes "fake_laws env view" and "NewFakeFS env = Inr fs"
  shows "(\<forall>v \<in> set (fe_Walk env (rootFS env)). snd (snd v) = None) \<and>
     dom (view fs) = set (relative_files (rootFS env) (fe_Walk env (rootFS env))) \<and>
     (\<forall>p data. view fs p = Some data \<longrightarrow> fe_ReadFile env (rootFS env @ p) = Inr data)"
proof -
  let ?vs = "fe_Walk env (rootFS env)"
  have ok: "List.map_filter (\<lambda>v. snd (snd v)) ?vs = []" "copy_files env (relative_files (rootFS env) ?vs) (fe_NewFakeFs env) = Inr fs"
    using assms(2) by (auto simp: NewFakeFS_def walk_files_result split: list.splits sum.splits)
  have r: "\<exists>data. fe_ReadFile env (rootFS env @ p) = Inr data" if "copy_files env files f = Inr f'" "p \<in> set files" for files f f' p
    using that by (induction files arbitrary: f) (auto split: sum.splits prod.splits option.splits)
  have e: "view (fe_NewFakeFs env) = Map.empty" using assms(1) by (simp add: fake_laws_def)
  have v: "view fs = (\<lambda>p. if p \<in> set (relative_files (rootFS env) ?vs)
     then (case fe_ReadFile env (rootFS env @ p) of Inr data \<Rightarrow> Some data | Inl _ \<Rightarrow> None) else None)"
    using copy_files_view[OF assms(1) ok(2)] unfolding e .
  have "\<forall>v \<in> set ?vs. snd (snd v) = None"
    using ok(1) by (auto simp: List.map_filter_def filter_empty_conv)
  moreover have "dom (view fs) = set (relative_files (rootFS env) ?vs)"
    using r[OF ok(2)] by (fastforce simp: v dom_def split: if_splits)
  moreover have "\<forall>p data. view fs p = Some data \<longrightarrow> fe_ReadFile env (rootFS env @ p) = Inr data"
    by (auto simp: v split: if_splits sum.splits)
  ultimately show ?thesis by blast
qed

lemma rootFS_without_GOPATH:
  "fe_Getenv env ''GOPATH'' = '''' \<Longrightarrow> rootFS env = ''/src/k8s.io/ingress-nginx/rootfs''"
  unfolding rootFS_def by (simp only: append_Nil) code_simp

end
