(* ===== verification/Spec2Isabelle.thy ===== *)
theory Spec2Isabelle
  imports ConcurrentSessions Pipeline Startup Election Metrics HealthServer FileSystem
begin

text \<open>
  A verification of the WLS ingress controller: a Kubernetes controller, written in Go, that
  forwards HTTP requests to WebLogic servers and keeps every session on the server that opened
  it, across any number of replicas that share their session table in redis.

  \<^bold>\<open>The program.\<close> The informers of \<open>controller/store\<close> keep a local store of the Ingress objects of
  the right class and announce every change on a channel. The event loop of \<open>wls.go\<close> puts the
  announcements on the task queue (\<open>task/queue.go\<close>), whose worker runs \<open>syncIngress\<close>:
  \<open>controller.go\<close>, \<open>endpoints.go\<close> and \<open>util.go\<close> compute a configuration (a list of hosts with
  their servers) from the Ingresses and the cached Services and Endpoints. If it is not \<open>Equal\<close>
  (\<open>types_equals.go\<close>, \<open>config_equals.go\<close>, \<open>sets/match.go\<close>) to the running one, \<open>OnUpdate\<close> hands it to
  the HTTP handler (\<open>handler/http\<close>), and the leader removes the sessions of servers that are gone
  through the redis manager (\<open>redis/redis.go\<close>). The handler serves every request from the running
  configuration and the session table. The leader also publishes the addresses of the controller in
  the status of the Ingresses (\<open>status/status.go\<close>).

  \<^bold>\<open>Theories.\<close>
  \<^item> \<open>Prelude\<close>: panics, errors, slices and maps of Go, loops that may panic, map iteration orders; the
    locales \<open>invariant_steps\<close> and \<open>terminating_steps\<close>, which every step relation below interprets.
  \<^item> \<open>GoStrings\<close>, \<open>GoHttp\<close>, \<open>GoJson\<close>: what the program uses of \<open>strings\<close>, \<open>strconv\<close>, \<open>net\<close>, \<open>net/http\<close>,
    \<open>httputil\<close> and \<open>encoding/json\<close>.
  \<^item> \<open>SetsMatch\<close>: \<open>sets.Compare\<close>; the locale \<open>go_equal\<close> of equality functions, under which it
    decides equality up to order.
  \<^item> \<open>K8sTypes\<close>: the API objects as far as the controller reads them, and \<open>internal/k8s\<close>.
  \<^item> \<open>IngressTypes\<close>: configurations and their \<open>Equal\<close> methods, each an interpretation of \<open>go_equal\<close>.
  \<^item> \<open>SessionStore\<close>: the abstract session table and the locale \<open>session_store\<close>, the contract
    between the session table and its clients; stickiness and trace refinement are proved in it.
  \<^item> \<open>RedisManager\<close>: \<open>redis.Manager\<close>, an interpretation of \<open>session_store\<close>.
  \<^item> \<open>Handler\<close>: the request path, one function per branch of \<open>handleRootWLS\<close>, and the step relation
    \<open>handler_step\<close> of a handler over time.
  \<^item> \<open>Concurrent\<close>: requests and \<open>Clean\<close> as goroutines of any number of replicas that interleave at the lock
    of the configuration, the operations of the map of proxies and the commands to redis (\<open>replicas_step\<close>);
    alone, a goroutine computes \<open>handleRootWLS\<close> or \<open>Clean\<close>.
  \<^item> \<open>ConcurrentSessions\<close>: sessions in these runs, before and after they are recorded.
  \<^item> \<open>Annotations\<close>: \<open>errors\<close>, \<open>annotations/parser\<close>, \<open>annotations/class\<close>, \<open>annotations/proxy\<close> and the
    extractor.
  \<^item> \<open>Upstreams\<close>: endpoints, upstreams, servers, and the generated configuration.
  \<^item> \<open>K8sStore\<close>: \<open>controller/store\<close>; the locale \<open>ingress_lister\<close> with its interpretation, the handlers
    that \<open>New\<close> gives to each informer (\<open>New_handler\<close>), and the relation \<open>watch\<close> of what an informer may
    announce.
  \<^item> \<open>TaskQueue\<close>: \<open>task.Queue\<close>; \<open>queue_step\<close> interleaves the worker with the enqueuing goroutines.
  \<^item> \<open>StatusSync\<close>: \<open>status.go\<close> of the status syncer, with the order of addresses as \<open>linorder\<close>.
  \<^item> \<open>StatusRun\<close>: the life of the syncer over several leads: \<open>Run\<close> with its polls, \<open>Shutdown\<close>, and the
    workers of its queue (\<open>exit_step\<close>).
  \<^item> \<open>ControllerSync\<close>: \<open>wls.go\<close>, \<open>syncIngress\<close>, the leader election callbacks; \<open>controller_step\<close>.
  \<^item> \<open>Election\<close>: what \<open>setupLeaderElection\<close> hands to the elector: lock, identity, timing, callbacks.
  \<^item> \<open>Pipeline\<close>: the informers, the ring channel, the event loop, the queue's worker and the handler as
    one state machine, \<open>pipe_step\<close>, with its invariant \<open>pipe_inv\<close>; the steps are the definitions of the
    theories before it.
  \<^item> \<open>Metrics\<close>: the labels of the metrics and what is registered (\<open>metric\<close>, \<open>metric/collectors\<close>).
  \<^item> \<open>Startup\<close>: \<open>cmd/wls\<close> (flags, \<open>main\<close>, the API client, the signal handler), \<open>internal/net\<close>, and the
    order in which \<open>Start\<close> brings up the controller, as the step relation \<open>boot_step\<close>.
  \<^item> \<open>HealthServer\<close>: the \<open>ServeMux\<close> of \<open>main\<close> with its handlers, the version text, the two HTTP servers.
  \<^item> \<open>FileSystem\<close>: \<open>internal/file\<close>.
  \<^item> This theory: what spans the handler and the session table, and the way from the cluster to a request.

  A Go struct is a record, a pointer an option, a slice a list (an optional list where nil and
  empty differ), a map an association list with distinct keys, an \<open>int\<close> an \<open>int\<close> (int32 conversion
  is written out). A panic is the value \<open>Inl p\<close> of the result type \<open>'a res\<close>; logging is left out.

  \<^bold>\<open>Parameters.\<close> Code outside the repository is an argument, with its documented behaviour as named
  hypotheses, each shown satisfiable on an executable instance: the redis client (\<open>redis_laws\<close>, while
  the server answers and before entries expire), the caches of client-go (\<open>cache_laws\<close>), the work
  queue (\<open>workqueue_laws\<close>, \<open>drain_laws\<close>, \<open>delivery_laws\<close>), the ring channel (\<open>ring_laws\<close>), the backoff of
  apimachinery (\<open>backoff_laws\<close>), metric vectors and their registry (\<open>vec_laws\<close>, \<open>registry_laws\<close>), the
  in-memory file system (\<open>fake_laws\<close>), the API server (\<open>api_laws\<close>), key functions and
  \<open>IntOrString\<close> (\<open>k8s_lib\<close>), the merge of parsed annotations (\<open>merge_ok\<close>), \<open>url.Parse\<close> and the answer
  of an upstream (\<open>handler_env\<close>), random indices, readings of the clock, and the order in which Go
  ranges over a map (\<open>range_order\<close>: any permutation).

  \<^bold>\<open>What is shown.\<close> Sessions: \<open>session_affinity\<close> below (a session stays on its server across replicas),
  the refinement of the session table, exactness of \<open>Clean\<close>, the round trip of the session cookie.
  Requests: where they go, that each is answered, which branches panic. Concurrency: a recorded session is
  kept under every interleaving (\<open>concurrent_session_affinity\<close>), no request panics or goes astray because
  of another one (\<open>concurrent_requests_safe\<close>), requests never wait for each other (\<open>requests_finish\<close>), and
  the one gap: between the answer that opens a session and its entry in redis the session is refused
  (\<open>unrecorded_session_refused\<close>).
  Configuration: the servers of a service, the rule that wins a host, independence of map orders, the
  shape of every configuration that is served (\<open>reachable_configuration_typed\<close>),
  \<open>Equal\<close> as an equivalence that is safe to skip a reload on, and \<open>synced_proxy_routes\<close> (after a sync the
  handler routes as the Ingresses say). Store: it mirrors the cluster and announces every change.
  Queue: no event is lost to the skipping of elements, and a shutdown ends. Leader: which replicas
  compete (\<open>election_per_class\<close>), cleaning removes exactly what is no longer routed, no number of polls
  removes a session that is, the published status and when \<open>Shutdown\<close> clears it. Together: \<open>at_rest_serves_cluster\<close> (whenever
  nothing is in flight the handler serves what the cluster says), \<open>pipeline_comes_to_rest\<close> (it always
  gets there) its limit \<open>service_change_not_served\<close> (a change of a Service alone starts nothing), and
  \<open>request_reaches_ready_server\<close> (at rest a request is answered by a ready address of its Service). Start: \<open>main_starts_iff\<close>, the retries of the API client, and \<open>start_order_safe\<close> (redis is
  started before anything uses it, which is why the other theories take the manager as given), and the
  answers of the health server (\<open>build_info_roundtrip\<close>).

  \<^bold>\<open>Loops.\<close> Every loop over a list is structural recursion; the search loop of \<open>Compare\<close> and \<open>Split\<close> have
  termination proofs. Only the worker of the queue may run forever: \<open>worker\<close> takes the clock readings
  of its rounds as fuel, and \<open>shutdown_worker_exits\<close> shows that more rounds than pending elements are
  enough for it to return after a shutdown. The event loop and the worker inside the pipeline are steps,
  and the measure \<open>pending\<close> bounds how many of them one notification can cause. A request takes at most
  eight actions (\<open>actions_left\<close>).

  \<^bold>\<open>Not modelled.\<close> The parsing of the command line by pflag, the elector of client-go and its lock, the
  watches behind the informers (their list options and label selectors); logging; the delays of rate limiters
  and backoffs. \<open>defaults/main.go\<close> declares a struct that nothing uses, \<open>resolver/main.go\<close> an interface whose one
  operation is that of the store. In \<open>Pipeline\<close> and \<open>ControllerSync\<close> a request is
  one atomic step; \<open>Concurrent\<close> splits it, with the exchange with the upstream as one action. Expiry of a redis entry
  is a step of the environment of a handler (\<open>handler_step\<close>), not of the session laws.
\<close>

section \<open>A session from the first request to the next\<close>

lemma Header_Get_http_Error:
  "Header_Get (rw_header (http_Error msg code w)) ''Set-Cookie'' = Header_Get (rw_header w) ''Set-Cookie''"
  by (simp add: http_Error_def WriteHeader_def Header_Get_def Header_Set_def update_conv' Let_def
      split: option.splits)

lemma answer_opens_no_session:
  "jsession_of (Header_Get (rw_header (oc_response (answer msg code close))) ''Set-Cookie'') = None"
  by (simp add: answer_def Header_Get_http_Error) (simp add: new_response_def Header_Get_def jsession_of_Nil)

text \<open>A new session is recorded under the address the request was forwarded to.\<close>

lemma new_session_recorded:
  assumes "proxies_ok h" and "handleRootWLS env ls h w r i = Inr (h', w', oc)"
    and "handler_getEndpoints h (getHost r) = Inr (Some eps)"
    and "request_Cookie r ''JSESSIONID'' = None"
    and "jsession_of (Header_Get (rw_header (oc_response oc)) ''Set-Cookie'') = Some v"
  obtains e port where "e \<in> set eps" and "w' = AddCookie ls v (Address e) w"
    and "oc_forwarded oc = [upstream_url (Address e) port]"
  using assms(2)
proof (cases rule: handleRootWLS_cases)
  case (new_session es)
  with assms(3) have es: "es = eps" by simp
  from new_session(5) show thesis
  proof (cases rule: handle_new_session_cases)
    case bad_url
    with assms(5) show thesis by (simp add: answer_opens_no_session)
  next
    case (no_session url)
    with assms(5) jsession_of_Nil show thesis by (auto simp: then_error_def Header_Get_http_Error)
  next
    case (session url j)
    with load_proxy_inv(2)[OF session(4) assms(1)] obtain port
      where "url = upstream_url (Address (eps ! i)) port" by (auto simp: es)
    with session assms(5) show thesis by (intro that[of "eps ! i" port]) (auto simp: es forward_def)
  qed
next
  case no_host
  with assms(5) show thesis by (simp add: answer_opens_no_session)
next
  case no_endpoint
  with assms(5) show thesis by (simp add: answer_opens_no_session)
qed (use assms(3,4) in simp_all)

text \<open>C1: session affinity across replicas. A client without a session is sent to some
  endpoint, which opens the session \<open>v\<close>. A later request that carries \<open>v\<close>, at any replica, is
  forwarded to the address of that endpoint, whatever session operations the replicas run
  in between, as long as no other answer opens the same session and the leader cleans only
  with lists that contain the endpoints of the host.\<close>

theorem session_affinity:
  assumes "redis_laws (client ls) view" and "literal_namespace ls" and "range_order ord"
    and "(handler_step env1 ls)\<^sup>*\<^sup>* (InstallHandler c1, w1) (h1, w)"
    and "handler_getEndpoints h1 (getHost r1) = Inr (Some eps1)" and "'''' \<notin> Address ` set eps1"
    and "request_Cookie r1 ''JSESSIONID'' = None"
    and "handleRootWLS env1 ls h1 w r1 i = Inr (h1', w', oc1)"
    and "jsession_of (Header_Get (rw_header (oc_response oc1)) ''Set-Cookie'') = Some v" and "plain_token ls v"
    and "\<forall>p \<in> set ops. \<forall>k \<in> op_tokens p. plain_token ls k"
    and "\<forall>p \<in> set ops. (\<forall>e. p \<noteq> AddSession v e) \<and>
           (\<forall>eps. p = CleanSessions eps \<longrightarrow> Address ` set eps1 \<subseteq> set eps)"
    and "(handler_step env2 ls)\<^sup>*\<^sup>* (InstallHandler c2, w2) (h2, fold (manager_step ord ls) ops w')"
    and "getHost r2 \<noteq> ''''" and "handler_getEndpoints h2 (getHost r2) = Inr (Some eps2)" and "eps2 \<noteq> []"
    and "request_Cookie r2 ''JSESSIONID'' = Some v" and "\<forall>url. he_parseURL env2 url"
  shows "\<exists>a p1 p2 h2' w'' oc2. oc_forwarded oc1 = [upstream_url a p1] \<and>
     handleRootWLS env2 ls h2 (fold (manager_step ord ls) ops w') r2 j = Inr (h2', w'', oc2) \<and>
     oc_forwarded oc2 = [upstream_url a p2]"
proof -
  have ok: "proxies_ok h1" "proxies_ok h2"
    using reachable_from_install[OF assms(4)] reachable_from_install[OF assms(13)] by simp_all
  obtain e p1 where e: "e \<in> set eps1" "w' = AddCookie ls v (Address e) w"
    "oc_forwarded oc1 = [upstream_url (Address e) p1]"
    using new_session_recorded[OF ok(1) assms(8,5,7,9)] by blast
  let ?w = "fold (manager_step ord ls) ops w'"
  have ne: "Address e \<noteq> ''''" using e(1) assms(6) by force
  have get: "fst (GetEndpoint ls v True ?w) = Inr (Address e)"
    unfolding e(2) using assms(12) e(1)
    by (intro session_kept[OF assms(1-3,10) ne assms(11)]) blast
  obtain w'' where w'': "GetEndpoint ls v True ?w = (Inr (Address e), w'')"
    using get by (cases "GetEndpoint ls v True ?w") simp
  obtain h2' url where lp: "load_proxy env2 h2 (Address e) (upstream_url (Address e) ''7001'') = Some (h2', url)"
    using load_proxy_None[of env2 h2 "Address e" "upstream_url (Address e) ''7001''"] assms(18) by fastforce
  obtain p2 where p2: "url = upstream_url (Address e) p2" using load_proxy_inv(2)[OF lp ok(2)] by blast
  have "handleRootWLS env2 ls h2 ?w r2 j = Inr (h2', w'', forward env2 r2 url)"
    using assms(14-17) w'' lp ne by (simp add: handleRootWLS_def handle_session_def)
  moreover have "oc_forwarded (forward env2 r2 url) = [upstream_url (Address e) p2]"
    by (simp add: forward_def p2)
  ultimately show ?thesis using e(3) by blast
qed

lemma session_affinity_witness:
  "\<exists>a p1 p2 h2' w'' oc2. [''http://10.0.0.2:7003''] = [upstream_url a p1] \<and>
     handleRootWLS example_env example_manager (InstallHandler (Some example_config))
       (fold (manager_step rev example_manager)
          [AddSession ''xyz'' ''10.0.0.1'', CleanSessions [''10.0.0.1'', ''10.0.0.2'']]
          [(''WLS-ING:abc'', ''10.0.0.2'', time_Hour)])
       (example_request [''JSESSIONID=abc'']) 0 = Inr (h2', w'', oc2) \<and>
     oc_forwarded oc2 = [upstream_url a p2]"
proof -
  let ?h = "InstallHandler (Some example_config)"
  let ?ops = "[AddSession ''xyz'' ''10.0.0.1'', CleanSessions [''10.0.0.1'', ''10.0.0.2'']]"
  have env: "(handler_step example_env example_manager)\<^sup>*\<^sup>* (?h, []) (?h, w)" for w
    using handler_step.environment[of example_env example_manager ?h "[]" w] by blast
  have a: "handler_getEndpoints ?h (getHost (example_request c)) = Inr (Some example_endpoints)"
    "getHost (example_request c) \<noteq> ''''" for c by (simp_all add: example_request_def) code_simp+
  have b: "'''' \<notin> Address ` set example_endpoints" "example_endpoints \<noteq> []"
    "Address ` set example_endpoints = {''10.0.0.1'', ''10.0.0.2''}" "\<forall>url. he_parseURL example_env url"
    by (auto simp: example_endpoints_def example_env_def)
  have c: "request_Cookie (example_request []) ''JSESSIONID'' = None"
    "request_Cookie (example_request [''JSESSIONID=abc'']) ''JSESSIONID'' = Some ''abc''"
    "jsession_of (Header_Get [(''Set-Cookie'', [''JSESSIONID=abc; path=/''])] ''Set-Cookie'') = Some ''abc''"
    by code_simp+
  show ?thesis
    using session_affinity[OF example_client example_literal_namespace range_order_rev env a(1) b(1) c(1)
        example_new_session, of "''abc''" ?ops example_env "Some example_config" "[]" ?h
        "example_request [''JSESSIONID=abc'']" example_endpoints 0]
      env a b c example_plain by simp
qed

text \<open>The port of a session is not kept. A replica that has not yet forwarded to the recorded address
  forwards the session to port 7001 of it, whatever port of the endpoint opened the session.\<close>

lemma session_forwarded_to_7001:
  assumes "getHost r \<noteq> ''''" and "handler_getEndpoints h (getHost r) = Inr (Some eps)" and "eps \<noteq> []"
    and "request_Cookie r ''JSESSIONID'' = Some v" and "fst (GetEndpoint ls v True w) = Inr a" and "a \<noteq> ''''"
    and "map_of (proxyMap h) a = None" and "he_parseURL env (upstream_url a ''7001'')"
  shows "\<exists>h' w' oc. handleRootWLS env ls h w r i = Inr (h', w', oc) \<and> oc_forwarded oc = [''http://'' @ a @ '':7001'']"
proof -
  obtain w' where "GetEndpoint ls v True w = (Inr a, w')" using assms(5) by (cases "GetEndpoint ls v True w") simp
  with assms show ?thesis
    by (simp add: handleRootWLS_def handle_session_def load_proxy_def forward_def upstream_url_def)
qed

section \<open>From the cluster to the request\<close>

text \<open>A request without a session on a host with endpoints goes to one of their addresses.\<close>

lemma new_request_forwarded:
  assumes "proxies_ok h" and "handler_getEndpoints h (getHost r) = Inr (Some eps)" and "eps \<noteq> []"
    and "getHost r \<noteq> ''''" and "request_Cookie r ''JSESSIONID'' = None" and "rand_in_range h r i" and "\<forall>url. he_parseURL env url"
  shows "\<exists>h' w' oc a port. handleRootWLS env ls h w r i = Inr (h', w', oc) \<and>
     oc_forwarded oc = [upstream_url a port] \<and> a \<in> Address ` set eps"
proof -
  from assms(2,3,6) have i: "i < length eps" by (simp add: rand_in_range_def)
  let ?e = "eps ! i"
  obtain h' url where lp: "load_proxy env h (Address ?e) (upstream_url (Address ?e) (Port ?e)) = Some (h', url)"
    using load_proxy_None[of env h "Address ?e" "upstream_url (Address ?e) (Port ?e)"] assms(7) by fastforce
  obtain port where "url = upstream_url (Address ?e) port" using load_proxy_inv(2)[OF lp assms(1)] by blast
  moreover have "\<exists>w' oc. handleRootWLS env ls h w r i = Inr (h', w', oc) \<and> oc_forwarded oc = [url]"
    using assms(2-5) i lp
    by (auto simp: handleRootWLS_def handle_new_session_def go_index_def forward_def then_error_def Let_def split: option.splits)
  moreover have "Address ?e \<in> Address ` set eps" using i by simp
  ultimately show ?thesis by blast
qed

text \<open>The servers of a rule whose Service has a matching port and Endpoints.\<close>

lemma rule_servers:
  assumes "serves_rules lib (pl_storer s) ings h" and "route ings host = Some (ns, rule)"
    and "key = ns @ ''/'' @ ib_serviceName (first_backend rule)"
    and "pl_services s key = Some svc" and "svc_type svc \<noteq> ServiceTypeExternalName"
    and "MetaNamespaceKey lib (svc_meta svc) = key" and "pl_endpoints s key = Some ep"
    and "find (port_matches lib (lib_intstr_String lib (ib_servicePort (first_backend rule)))) (svc_ports svc) = Some port"
  shows "\<exists>eps. handler_getEndpoints h host = Inr (Some eps) \<and>
     server_key ` set eps = subset_servers port ProtocolTCP (eps_subsets ep)"
proof -
  let ?port = "lib_intstr_String lib (ib_servicePort (first_backend rule))"
  obtain eps where eps: "handler_getEndpoints h host = Inr (Some eps)"
    "mset (map server_key eps) = mset (map server_key (elems (fst (serviceEndpoints lib (pl_storer s) key ?port))))"
    using assms(1)[unfolded serves_rules_def, rule_format, of host] assms(2,3) by (auto simp: elems_def)
  have ep: "st_GetServiceEndpoints (pl_storer s) (MetaNamespaceKey lib (svc_meta svc)) = Inr ep"
    using assms(6,7) by (simp add: pl_storer_def store_storer_def ByKey_def)
  have "elems (fst (serviceEndpoints lib (pl_storer s) key ?port)) =
      getEndpoints lib (Some svc) (Some port) ProtocolTCP (st_GetServiceEndpoints (pl_storer s))"
    using assms(4,5,8) by (simp add: serviceEndpoints_def pl_storer_def store_storer_def ByKey_def elems_def go_append_def)
  with getEndpoints_servers[where getServiceEndpoints = "st_GetServiceEndpoints (pl_storer s)", OF assms(5) ep, of port ProtocolTCP]
    arg_cong[OF eps(2), of set_mset] eps(1) show ?thesis by auto
qed



end
